theory Spec2Isabelle
  imports Main "HOL-Library.Word" "HOL-Library.Multiset"
begin

unbundle bit_operations_syntax

section \<open>Batched read-write lock: the backoff of the spin loops (platform.c)\<close>

text \<open>
  Every spin loop of \<^verbatim>\<open>platform_batch_rwlock_try_writelock\<close>,
  \<^verbatim>\<open>platform_batch_rwlock_writelock\<close> and \<^verbatim>\<open>platform_batch_rwlock_readlock\<close> has the body
  \<^verbatim>\<open>platform_sleep(wait); wait = wait > 2048 ? wait : 2 * wait;\<close> on a \<^verbatim>\<open>uint64 wait\<close>.
  What the loop condition reads is written by other threads, so the values it sees are an
  input of the model: a list of observations, one per evaluation of a condition that reads
  the lock, \<open>True\<close> when the word read was non-zero.  A function that runs out of
  observations while it spins has not returned; what it slept so far is still reported.
\<close>

type_synonym uint64 = "64 word"

definition backoff :: "uint64 \<Rightarrow> uint64" where
  "backoff wait = (if wait > 2048 then wait else 2 * wait)"

text \<open>
  \<^verbatim>\<open>while (cond) { platform_sleep(wait); wait = ...; }\<close>: the observations left after
  the loop (\<open>None\<close> while it still spins) and the durations slept, in order.
\<close>

fun spin_wait :: "bool list \<Rightarrow> uint64 \<Rightarrow> uint64 list \<Rightarrow> bool list option \<times> uint64 list" where
  "spin_wait [] wait slept = (None, slept)"
| "spin_wait (busy # obs) wait slept =
     (if busy then spin_wait obs (backoff wait) (slept @ [wait]) else (Some obs, slept))"

text \<open>
  The \<^verbatim>\<open>for (i = 0; i < MAX_THREADS; i++)\<close> loop over the per-thread reader counters;
  \<open>wait\<close> is reset to 1 after each thread.  \<^verbatim>\<open>try_writelock\<close> skips its own thread id
  (\<^verbatim>\<open>i != tid && ...\<close> reads nothing for it), \<^verbatim>\<open>writelock\<close> skips none.
\<close>

fun wait_for_readers ::
  "nat option \<Rightarrow> nat list \<Rightarrow> bool list \<Rightarrow> uint64 list \<Rightarrow> bool list option \<times> uint64 list" where
  "wait_for_readers skip [] obs slept = (Some obs, slept)"
| "wait_for_readers skip (i # threads) obs slept =
     (if skip = Some i then wait_for_readers skip threads obs slept
      else (case spin_wait obs 1 slept of
              (None, slept') \<Rightarrow> (None, slept')
            | (Some rest, slept') \<Rightarrow> wait_for_readers skip threads rest slept'))"

text \<open>
  The three entry points return what they return in C (\<open>None\<close>: still spinning when the
  observations ended) and the durations slept.  \<open>MAX_THREADS\<close> is a macro of a header that
  is not part of the sources, so it is a parameter.
\<close>

definition platform_batch_rwlock_try_writelock ::
  "nat \<Rightarrow> nat \<Rightarrow> bool list \<Rightarrow> bool option \<times> uint64 list" where
  "platform_batch_rwlock_try_writelock MAX_THREADS tid obs =
     (case obs of
        [] \<Rightarrow> (None, [])
      | was_set # rest \<Rightarrow>
          if was_set then (Some False, [])
          else (case wait_for_readers (Some tid) [0..<MAX_THREADS] rest [] of
                  (None, slept) \<Rightarrow> (None, slept)
                | (Some _, slept) \<Rightarrow> (Some True, slept)))"

definition platform_batch_rwlock_writelock ::
  "nat \<Rightarrow> bool list \<Rightarrow> unit option \<times> uint64 list" where
  "platform_batch_rwlock_writelock MAX_THREADS obs =
     (case spin_wait obs 1 [] of
        (None, slept) \<Rightarrow> (None, slept)
      | (Some rest, slept) \<Rightarrow>
          (case wait_for_readers None [0..<MAX_THREADS] rest slept of
             (None, slept') \<Rightarrow> (None, slept')
           | (Some _, slept') \<Rightarrow> (Some (), slept')))"

lemma spin_wait_shorter:
  "spin_wait obs w sl = (Some rest, sl') \<Longrightarrow> length rest < length obs"
  by (induction obs arbitrary: w sl) (fastforce split: if_splits)+

text \<open>
  \<^verbatim>\<open>while (1) { wait = 1; while (write_lock) {...}; counter++; if (!write_lock) return; counter--; }\<close>
\<close>

function platform_batch_rwlock_readlock ::
  "bool list \<Rightarrow> uint64 list \<Rightarrow> unit option \<times> uint64 list" where
  "platform_batch_rwlock_readlock obs slept =
     (case spin_wait obs 1 slept of
        (None, slept') \<Rightarrow> (None, slept')
      | (Some rest, slept') \<Rightarrow>
          (case rest of
             [] \<Rightarrow> (None, slept')
           | locked # rest' \<Rightarrow>
               if \<not> locked then (Some (), slept')
               else platform_batch_rwlock_readlock rest' slept'))"
  by pat_completeness auto
termination
proof (relation "measure (\<lambda>(obs, slept). length obs)", goal_cases)
  case 1
  show ?case by simp
next
  case (2 obs slept x y rest z rest')
  then have "spin_wait obs 1 slept = (Some (z # rest'), y)" by simp
  from spin_wait_shorter [OF this] show ?case by simp
qed

subsection \<open>The backoff schedule\<close>

lemma backoff_le:
  assumes "w \<le> 4096"
  shows "backoff w \<le> 4096"
proof (cases "w > 2048")
  case True
  with assms show ?thesis by (simp add: backoff_def)
next
  case False
  then have "unat w \<le> 2048" by (simp add: word_less_nat_alt not_less)
  then have "unat (2 * w) = 2 * unat w" by (simp add: unat_word_ariths)
  with \<open>unat w \<le> 2048\<close> have "2 * w \<le> 4096" by (simp add: word_le_nat_alt)
  with False show ?thesis by (simp add: backoff_def)
qed

lemma backoff_pow: "backoff (2 ^ min k 12) = 2 ^ min (Suc k) 12"
proof (cases "k < 12")
  case True
  then have "k = 0 \<or> k = 1 \<or> k = 2 \<or> k = 3 \<or> k = 4 \<or> k = 5 \<or> k = 6 \<or> k = 7
    \<or> k = 8 \<or> k = 9 \<or> k = 10 \<or> k = 11" by (simp add: eval_nat_numeral less_Suc_eq)
  then show ?thesis by (elim disjE) (simp_all add: backoff_def)
next
  case False
  then show ?thesis by (simp add: backoff_def min_def)
qed

lemma backoff_funpow: "(backoff ^^ k) 1 = 2 ^ min k 12"
  by (induction k) (simp_all add: backoff_pow)

lemma spin_wait_slept:
  "snd (spin_wait obs w sl) = sl @ map (\<lambda>k. (backoff ^^ k) w) [0..<length (takeWhile (\<lambda>b. b) obs)]"
proof (induction obs arbitrary: w sl)
  case Nil
  then show ?case by simp
next
  case (Cons busy obs)
  show ?case
  proof (cases busy)
    case True
    then show ?thesis
      by (simp add: Cons.IH map_upt_Suc funpow_swap1 del: upt_Suc)
  next
    case False
    then show ?thesis by simp
  qed
qed

lemma spin_wait_le:
  "w \<le> 4096 \<Longrightarrow> \<forall>d\<in>set sl. d \<le> 4096 \<Longrightarrow> \<forall>d\<in>set (snd (spin_wait obs w sl)). d \<le> 4096"
proof (induction obs arbitrary: w sl)
  case Nil
  then show ?case by simp
next
  case (Cons busy obs)
  show ?case
  proof (cases busy)
    case True
    have "\<forall>d\<in>set (snd (spin_wait obs (backoff w) (sl @ [w]))). d \<le> 4096"
      using Cons.prems by (intro Cons.IH backoff_le) simp_all
    with True show ?thesis by simp
  next
    case False
    with Cons.prems show ?thesis by simp
  qed
qed

lemma wait_for_readers_le:
  "\<forall>d\<in>set sl. d \<le> 4096 \<Longrightarrow> \<forall>d\<in>set (snd (wait_for_readers skip ts obs sl)). d \<le> 4096"
proof (induction ts arbitrary: obs sl)
  case Nil
  then show ?case by simp
next
  case (Cons i ts)
  have s: "\<forall>d\<in>set (snd (spin_wait obs 1 sl)). d \<le> 4096"
    using Cons.prems by (intro spin_wait_le) simp_all
  show ?case
  proof (cases "spin_wait obs 1 sl")
    case (Pair r sl')
    with s have sl': "\<forall>d\<in>set sl'. d \<le> 4096" by simp
    show ?thesis
    proof (cases "skip = Some i")
      case True
      then show ?thesis using Cons.IH [OF Cons.prems] by simp
    next
      case False
      show ?thesis
      proof (cases r)
        case None
        with Pair False sl' show ?thesis by simp
      next
        case (Some rest)
        with Pair False Cons.IH [OF sl'] show ?thesis by simp
      qed
    qed
  qed
qed

lemma readlock_le:
  "\<forall>d\<in>set sl. d \<le> 4096 \<Longrightarrow> \<forall>d\<in>set (snd (platform_batch_rwlock_readlock obs sl)). d \<le> 4096"
proof (induction obs sl rule: platform_batch_rwlock_readlock.induct)
  case (1 obs slept)
  have s: "\<forall>d\<in>set (snd (spin_wait obs 1 slept)). d \<le> 4096"
    using "1.prems" by (intro spin_wait_le) simp_all
  show ?case
  proof (cases "spin_wait obs 1 slept")
    case (Pair r sl')
    with s have sl': "\<forall>d\<in>set sl'. d \<le> 4096" by simp
    show ?thesis
    proof (cases r)
      case None
      with Pair sl' show ?thesis by simp
    next
      case (Some rest)
      show ?thesis
      proof (cases rest)
        case Nil
        with Pair Some sl' show ?thesis by simp
      next
        case (Cons locked rest')
        show ?thesis
        proof (cases locked)
          case True
          have "\<forall>d\<in>set (snd (platform_batch_rwlock_readlock rest' sl')). d \<le> 4096"
            using "1.IH" [OF Pair [symmetric] Some Cons _ sl'] True by simp
          with Pair Some Cons True show ?thesis by simp
        next
          case False
          with Pair Some Cons sl' show ?thesis by simp
        qed
      qed
    qed
  qed
qed


text \<open>
  The schedule of one spin loop that sleeps \<open>n\<close> times: 1, 2, 4, ..., 2048, 4096, 4096, ...
\<close>

definition backoff_schedule :: "nat \<Rightarrow> uint64 list" where
  "backoff_schedule n = map (\<lambda>k. 2 ^ min k 12) [0..<n]"

text \<open>
  How often each spin loop sleeps, read off the observations alone: a loop sleeps once
  for every \<open>True\<close> at the front of what is left and consumes the \<open>False\<close> that ends it.
  \<open>spin_runs m\<close> is for \<open>m\<close> loops one after the other, \<open>readlock_runs\<close> for the reader,
  which looks at the write flag once more after each loop and starts another one if it is
  set.
\<close>

fun spin_runs :: "nat \<Rightarrow> bool list \<Rightarrow> nat list" where
  "spin_runs 0 obs = []"
| "spin_runs (Suc m) obs =
     (let n = length (takeWhile (\<lambda>b. b) obs)
      in n # (if n < length obs then spin_runs m (drop (Suc n) obs) else []))"

function readlock_runs :: "bool list \<Rightarrow> nat list" where
  "readlock_runs obs =
     (let n = length (takeWhile (\<lambda>b. b) obs)
      in n # (case drop (Suc n) obs of
                [] \<Rightarrow> []
              | locked # rest \<Rightarrow> if locked then readlock_runs rest else []))"
  by pat_completeness auto
termination
proof (relation "measure length", goal_cases)
  case 1
  show ?case by simp
next
  case (2 obs n locked rest)
  then have "length (drop (Suc n) obs) = Suc (length rest)" by simp
  then show ?case by simp
qed

declare readlock_runs.simps [simp del]

lemma spin_wait_eq:
  "spin_wait obs w sl =
     (let n = length (takeWhile (\<lambda>b. b) obs)
      in (if n < length obs then Some (drop (Suc n) obs) else None,
          sl @ map (\<lambda>k. (backoff ^^ k) w) [0..<n]))"
proof (induction obs arbitrary: w sl)
  case Nil
  then show ?case by simp
next
  case (Cons busy obs)
  show ?case
  proof (cases busy)
    case True
    then show ?thesis
      by (simp add: Cons.IH Let_def map_upt_Suc funpow_swap1 del: upt_Suc)
  next
    case False
    then show ?thesis by simp
  qed
qed

lemma spin_wait_schedule:
  "spin_wait obs 1 sl =
     (if length (takeWhile (\<lambda>b. b) obs) < length obs
      then Some (drop (Suc (length (takeWhile (\<lambda>b. b) obs))) obs) else None,
      sl @ backoff_schedule (length (takeWhile (\<lambda>b. b) obs)))"
  by (simp add: spin_wait_eq Let_def backoff_funpow backoff_schedule_def)

lemma wait_for_readers_schedule:
  "snd (wait_for_readers skip ts obs sl)
     = sl @ concat (map backoff_schedule (spin_runs (length (filter (\<lambda>i. skip \<noteq> Some i) ts)) obs))"
proof (induction ts arbitrary: obs sl)
  case Nil
  then show ?case by simp
next
  case (Cons i ts)
  show ?case
  proof (cases "skip = Some i")
    case True
    then show ?thesis using Cons.IH [of obs sl] by simp
  next
    case False
    then show ?thesis
      using Cons.IH by (simp add: spin_wait_schedule Let_def)
  qed
qed

lemma readlock_schedule:
  "snd (platform_batch_rwlock_readlock obs sl) = sl @ concat (map backoff_schedule (readlock_runs obs))"
proof (induction obs sl rule: platform_batch_rwlock_readlock.induct)
  case (1 obs slept)
  let ?n = "length (takeWhile (\<lambda>b. b) obs)"
  show ?case
  proof (cases "?n < length obs")
    case False
    then have "drop (Suc ?n) obs = []" by simp
    with False show ?thesis
      by (subst platform_batch_rwlock_readlock.simps, subst readlock_runs.simps)
         (simp add: spin_wait_schedule Let_def)
  next
    case True
    show ?thesis
    proof (cases "drop (Suc ?n) obs")
      case Nil
      with True show ?thesis
        by (subst platform_batch_rwlock_readlock.simps, subst readlock_runs.simps)
           (simp add: spin_wait_schedule Let_def)
    next
      case (Cons locked rest')
      show ?thesis
      proof (cases locked)
        case False
        with True Cons show ?thesis
          by (subst platform_batch_rwlock_readlock.simps, subst readlock_runs.simps)
             (simp add: spin_wait_schedule Let_def)
      next
        case locked: True
        have sw: "spin_wait obs 1 slept
            = (Some (locked # rest'), slept @ backoff_schedule ?n)"
          using True Cons by (simp add: spin_wait_schedule)
        have IH: "snd (platform_batch_rwlock_readlock rest' (slept @ backoff_schedule ?n))
            = (slept @ backoff_schedule ?n) @ concat (map backoff_schedule (readlock_runs rest'))"
          using "1.IH" [OF sw [symmetric] refl refl] locked
          by simp
        have l: "platform_batch_rwlock_readlock obs slept
            = platform_batch_rwlock_readlock rest' (slept @ backoff_schedule ?n)"
          by (subst platform_batch_rwlock_readlock.simps) (simp add: sw locked)
        have r: "readlock_runs obs = ?n # readlock_runs rest'"
          by (subst readlock_runs.simps) (simp add: Let_def Cons locked)
        show ?thesis unfolding l r IH by simp
      qed
    qed
  qed
qed

lemma backoff_schedule_le: "\<forall>d\<in>set (backoff_schedule m). d \<le> 4096"
proof -
  have "(2 :: uint64) ^ min k 12 \<le> 4096" for k
  proof -
    have "(backoff ^^ k) 1 \<le> 4096"
      by (induction k) (simp_all add: backoff_le)
    then show ?thesis by (simp add: backoff_funpow)
  qed
  then show ?thesis by (auto simp: backoff_schedule_def)
qed


text \<open>
  Claim C8, as the code has it: in each spin loop the \<open>k\<close>-th sleep (counting from 0)
  lasts \<open>2 ^ min k 12\<close> units, that is 1, 2, 4, ..., 2048, 4096, 4096, ...: the guard
  \<^verbatim>\<open>wait > 2048\<close> is tested before the doubling, so the value 2048 is doubled once more.
  The durations slept by \<^verbatim>\<open>platform_batch_rwlock_try_writelock\<close>,
  \<^verbatim>\<open>platform_batch_rwlock_writelock\<close> and \<^verbatim>\<open>platform_batch_rwlock_readlock\<close> are exactly
  these schedules, one after the other, each loop starting again at 1: one loop per reader
  counter for \<^verbatim>\<open>try_writelock\<close> (its own thread left out), the loop on the write flag and
  then one per reader counter for \<^verbatim>\<open>writelock\<close>, and one loop on the write flag per
  attempt for \<^verbatim>\<open>readlock\<close>.  No sleep exceeds 4096 units.
\<close>

theorem rwlock_backoff_schedule:
  "(\<forall>k < length (snd (spin_wait obs 1 [])). snd (spin_wait obs 1 []) ! k = 2 ^ min k 12)
   \<and> (\<forall>d \<in> set (snd (platform_batch_rwlock_try_writelock n tid obs)). d \<le> 4096)
   \<and> (\<forall>d \<in> set (snd (platform_batch_rwlock_writelock n obs)). d \<le> 4096)
   \<and> (\<forall>d \<in> set (snd (platform_batch_rwlock_readlock obs [])). d \<le> 4096)
   \<and> snd (platform_batch_rwlock_try_writelock n tid obs)
       = (case obs of
            [] \<Rightarrow> []
          | was_set # rest \<Rightarrow>
              if was_set then []
              else concat (map backoff_schedule
                             (spin_runs (length (filter (\<lambda>i. i \<noteq> tid) [0..<n])) rest)))
   \<and> snd (platform_batch_rwlock_writelock n obs)
       = concat (map backoff_schedule (spin_runs (Suc n) obs))
   \<and> snd (platform_batch_rwlock_readlock obs [])
       = concat (map backoff_schedule (readlock_runs obs))
   \<and> length (backoff_schedule m) = m
   \<and> (\<forall>k < m. backoff_schedule m ! k = 2 ^ min k 12)"
proof (intro conjI)
  show "\<forall>k < length (snd (spin_wait obs 1 [])). snd (spin_wait obs 1 []) ! k = 2 ^ min k 12"
    by (simp add: spin_wait_slept backoff_funpow)
  show "\<forall>d \<in> set (snd (platform_batch_rwlock_try_writelock n tid obs)). d \<le> 4096"
  proof (cases obs)
    case Nil
    then show ?thesis by (simp add: platform_batch_rwlock_try_writelock_def)
  next
    case (Cons was_set rest)
    have "\<forall>d\<in>set (snd (wait_for_readers (Some tid) [0..<n] rest [])). d \<le> 4096"
      by (rule wait_for_readers_le) simp
    then show ?thesis
      using Cons by (auto simp: platform_batch_rwlock_try_writelock_def split: prod.splits option.splits)
  qed
  show "\<forall>d \<in> set (snd (platform_batch_rwlock_writelock n obs)). d \<le> 4096"
  proof (cases "spin_wait obs 1 []")
    case (Pair r sl)
    have "\<forall>d\<in>set (snd (spin_wait obs 1 [])). d \<le> 4096"
      by (rule spin_wait_le) simp_all
    with Pair have sl: "\<forall>d\<in>set sl. d \<le> 4096" by simp
    show ?thesis
    proof (cases r)
      case None
      with Pair sl show ?thesis by (simp add: platform_batch_rwlock_writelock_def)
    next
      case (Some rest)
      from wait_for_readers_le [OF sl, of None "[0..<n]" rest]
      show ?thesis using Pair Some
        by (auto simp: platform_batch_rwlock_writelock_def split: prod.splits option.splits)
    qed
  qed
  show "\<forall>d \<in> set (snd (platform_batch_rwlock_readlock obs [])). d \<le> 4096"
    by (rule readlock_le) simp
  show "snd (platform_batch_rwlock_try_writelock n tid obs)
       = (case obs of
            [] \<Rightarrow> []
          | was_set # rest \<Rightarrow>
              if was_set then []
              else concat (map backoff_schedule
                             (spin_runs (length (filter (\<lambda>i. i \<noteq> tid) [0..<n])) rest)))"
  proof (cases obs)
    case Nil
    then show ?thesis by (simp add: platform_batch_rwlock_try_writelock_def)
  next
    case (Cons was_set rest)
    have f: "filter (\<lambda>i. Some tid \<noteq> Some i) [0..<n] = filter (\<lambda>i. i \<noteq> tid) [0..<n]"
      by (rule filter_cong) auto
    have "snd (wait_for_readers (Some tid) [0..<n] rest [])
        = concat (map backoff_schedule (spin_runs (length (filter (\<lambda>i. i \<noteq> tid) [0..<n])) rest))"
      unfolding wait_for_readers_schedule f by simp
    then show ?thesis
      using Cons by (auto simp: platform_batch_rwlock_try_writelock_def split: prod.splits option.splits)
  qed
  show "snd (platform_batch_rwlock_writelock n obs)
       = concat (map backoff_schedule (spin_runs (Suc n) obs))"
  proof (cases "length (takeWhile (\<lambda>b. b) obs) < length obs")
    case False
    then show ?thesis
      by (simp add: platform_batch_rwlock_writelock_def spin_wait_schedule Let_def)
  next
    case True
    let ?rest = "drop (Suc (length (takeWhile (\<lambda>b. b) obs))) obs"
    let ?sl = "backoff_schedule (length (takeWhile (\<lambda>b. b) obs))"
    have "snd (wait_for_readers None [0..<n] ?rest ?sl)
        = ?sl @ concat (map backoff_schedule (spin_runs n ?rest))"
      unfolding wait_for_readers_schedule by simp
    then show ?thesis
      using True
      by (auto simp: platform_batch_rwlock_writelock_def spin_wait_schedule Let_def
               split: prod.splits option.splits)
  qed
  show "snd (platform_batch_rwlock_readlock obs [])
       = concat (map backoff_schedule (readlock_runs obs))"
    unfolding readlock_schedule by simp
  show "length (backoff_schedule m) = m"
    by (simp add: backoff_schedule_def)
  show "\<forall>k < m. backoff_schedule m ! k = 2 ^ min k 12"
    by (simp add: backoff_schedule_def)
qed

text \<open>
  Claim C8 as stated (no sleep exceeds 2048 units) fails: a writer that finds the write
  flag taken thirteen times in a row sleeps 4096 units the thirteenth time.
\<close>

theorem rwlock_backoff_exceeds_2048:
  "snd (platform_batch_rwlock_writelock 64
         [True, True, True, True, True, True, True, True, True, True, True, True, True])
     = [1, 2, 4, 8, 16, 32, 64, 128, 256, 512, 1024, 2048, 4096]
   \<and> \<not> ((4096 :: uint64) \<le> 2048)"
  by (simp add: platform_batch_rwlock_writelock_def backoff_def)

text \<open>
  The schedule of C8 on concrete observations.  A writer of three threads (thread 0
  itself) that gets the write flag and then finds the counter of thread 1 non-zero twice
  and that of thread 2 once; a writer of two threads that finds the flag taken once and
  then the counter of thread 0 non-zero twice; a reader that waits twice, finds the flag
  set again after its increment and waits once more.
\<close>

theorem rwlock_backoff_schedule_witness:
  "snd (spin_wait [True, True, True, False] 1 []) ! 2 = 2 ^ min 2 12
   \<and> snd (platform_batch_rwlock_readlock [True, True, False, True, True, False, False] []) = [1, 2, 1]
   \<and> (2 :: uint64) \<le> 4096
   \<and> snd (platform_batch_rwlock_try_writelock 3 0 [False, True, True, False, True, False]) = [1, 2, 1]
   \<and> snd (platform_batch_rwlock_writelock 2 [True, False, True, True, False, False]) = [1, 1, 2]
   \<and> backoff_schedule 14 = [1, 2, 4, 8, 16, 32, 64, 128, 256, 512, 1024, 2048, 4096, 4096]"
proof -
  note a = rwlock_backoff_schedule [of "[True, True, True, False]" 0 0 14]
  note b = rwlock_backoff_schedule [of "[True, True, False, True, True, False, False]" 0 0 0]
  note c = rwlock_backoff_schedule [of "[False, True, True, False, True, False]" 3 0 0]
  note d = rwlock_backoff_schedule [of "[True, False, True, True, False, False]" 2 0 0]
  have e1: "concat (map backoff_schedule (readlock_runs [True, True, False, True, True, False, False]))
      = [1, 2, 1]" by code_simp
  have e2: "concat (map backoff_schedule
                      (spin_runs (length (filter (\<lambda>i. i \<noteq> 0) [0..<3])) [True, True, False, True, False]))
      = [1, 2, 1]" by code_simp
  have e3: "concat (map backoff_schedule (spin_runs (Suc 2) [True, False, True, True, False, False]))
      = [1, 1, 2]" by code_simp
  have e4: "backoff_schedule 14 = [1, 2, 4, 8, 16, 32, 64, 128, 256, 512, 1024, 2048, 4096, 4096]"
    by code_simp
  have w1: "snd (spin_wait [True, True, True, False] 1 []) ! 2 = 2 ^ min 2 12"
    using a [THEN conjunct1] by (simp add: backoff_def)
  have w2: "snd (platform_batch_rwlock_readlock [True, True, False, True, True, False, False] []) = [1, 2, 1]"
    using b e1 by simp
  have w3: "snd (platform_batch_rwlock_try_writelock 3 0 [False, True, True, False, True, False]) = [1, 2, 1]"
    using c e2 by simp
  have w4: "snd (platform_batch_rwlock_writelock 2 [True, False, True, True, False, False]) = [1, 1, 2]"
    using d e3 by simp
  from w1 w2 w3 w4 e4 show ?thesis by simp
qed

section \<open>The transaction layer (transaction_fantasticc_nolock.h)\<close>

subsection \<open>Timestamps, tuples and messages\<close>

text \<open>
  \<^verbatim>\<open>txn_timestamp\<close> is declared in \<^verbatim>\<open>splinterdb/transaction.h\<close>, which is not part of
  the sources.  Modelled from the spec: the tuple timestamp is
  \<^verbatim>\<open>{wts: 63b, delta: 64b, lock_bit: 1b}\<close> packed into 128 bits and updated by one
  compare-and-swap.  The source swaps a \<^verbatim>\<open>timestamp_set\<close> through a
  \<^verbatim>\<open>txn_timestamp\<close> pointer and declares the three bit-fields with that type (1 + 64 + 63
  bits share one unit only if the unit has 128 bits), so \<^verbatim>\<open>txn_timestamp\<close> is the unsigned
  128-bit integer.  Local variables and the \<^verbatim>\<open>wts\<close> and \<^verbatim>\<open>rts\<close> fields of an
  \<^verbatim>\<open>rw_entry\<close> have that width; a bit-field keeps its declared width, and storing into it
  truncates (\<open>ucast\<close>).  A bit-field read in an expression has the unsigned type of its own
  width (63 bits for \<^verbatim>\<open>wts\<close>, 64 for \<^verbatim>\<open>delta\<close>), as gcc has it: an operation on a
  bit-field and a \<^verbatim>\<open>txn_timestamp\<close> is done at 128 bits, but \<^verbatim>\<open>ts->wts + ts->delta\<close> adds two
  bit-fields and is done at the wider of their widths, 64 bits, before the sum is
  returned as a \<^verbatim>\<open>txn_timestamp\<close>: \<open>rts\<close> wraps around at \<open>2 ^ 64\<close>.
\<close>

type_synonym txn_timestamp = "128 word"
type_synonym byte = "8 word"

record timestamp_set =
  ts_lock_bit :: bool
  ts_delta :: "64 word"
  ts_wts :: "63 word"

record tuple_header =
  th_is_ts_update :: bool
  th_delta :: "64 word"
  th_wts :: "63 word"

definition UINT64_MAX :: txn_timestamp where
  "UINT64_MAX = 18446744073709551615"

definition timestamp_set_get_rts :: "timestamp_set \<Rightarrow> txn_timestamp" where
  "timestamp_set_get_rts ts = ucast ((ucast (ts_wts ts) :: 64 word) + ts_delta ts)"

text \<open>
  The 16 bytes of a \<^verbatim>\<open>tuple_header\<close> or a \<^verbatim>\<open>timestamp_set\<close>: one flag bit, 64 bits of
  \<^verbatim>\<open>delta\<close>, 63 bits of \<^verbatim>\<open>wts\<close>, allocated from the least significant bit, little-endian.
  Both structs have the same layout (the source relies on it: \<^verbatim>\<open>ts->lock_bit = 1; // = is_ts_update\<close>).
\<close>

definition bitfield_bytes :: "bool \<Rightarrow> 64 word \<Rightarrow> 63 word \<Rightarrow> byte list" where
  "bitfield_bytes b d w =
     (let x = (of_bool b OR push_bit 1 (ucast d) OR push_bit 65 (ucast w) :: 128 word)
      in map (\<lambda>i. ucast (drop_bit (8 * i) x)) [0..<16])"

definition tuple_header_bytes :: "tuple_header \<Rightarrow> byte list" where
  "tuple_header_bytes h = bitfield_bytes (th_is_ts_update h) (th_delta h) (th_wts h)"

definition timestamp_set_bytes :: "timestamp_set \<Rightarrow> byte list" where
  "timestamp_set_bytes ts = bitfield_bytes (ts_lock_bit ts) (ts_delta ts) (ts_wts ts)"

definition sizeof_tuple_header :: nat where
  "sizeof_tuple_header = 16"

text \<open>
  Modelled from the spec: \<^verbatim>\<open>message_type\<close> is declared in a header that is not part of
  the sources; a message is tagged INSERT, UPDATE or DELETE and carries bytes.
\<close>

datatype message_type = MESSAGE_TYPE_INSERT | MESSAGE_TYPE_UPDATE | MESSAGE_TYPE_DELETE

record message =
  message_class :: message_type
  message_data :: "byte list"

definition message_length :: "message \<Rightarrow> nat" where
  "message_length m = length (message_data m)"

text \<open>
  An entry of the read/write set.  \<open>msg = None\<close> is the null message.  \<open>tuple_ts\<close> is the
  pointer to the timestamp-cache slot of the entry's key: \<open>False\<close> is \<^verbatim>\<open>NULL\<close>.  Keys are
  values of a linearly ordered type: the order is the comparator of the \<^verbatim>\<open>data_config\<close>.
\<close>

record 'k rw_entry =
  key :: 'k
  msg :: "message option"
  wts :: txn_timestamp
  rts :: txn_timestamp
  tuple_ts :: bool
  is_read :: bool
  need_to_keep_key :: bool

record 'k transaction =
  rw_entries :: "'k rw_entry list"

subsection \<open>The shared state and what the code does to it\<close>

text \<open>
  Calls that leave the transaction layer are recorded in a trace, in program order: the
  operations issued to the key-value store, every compare-and-swap on a cache slot (with
  the expected value, the new value and whether it succeeded), every call of
  \<^verbatim>\<open>rw_entry_try_lock\<close> with its result, and every sleep.
\<close>

datatype 'k event =
    Splinterdb_insert 'k "byte list"
  | Splinterdb_update 'k "byte list"
  | Splinterdb_delete 'k
  | Splinterdb_lookup 'k
  | Cas 'k timestamp_set timestamp_set bool
  | Try_lock 'k bool
  | Sleep_ns nat

text \<open>
  \<open>tscache\<close> is the memory of the cache slots (a \<^verbatim>\<open>timestamp_set\<close> per key),
  \<open>tscache_refcount\<close> the table of the keys present with their reference counts.
  Modelled from the spec: \<^verbatim>\<open>iceberg_table.h\<close> is not part of the sources.  The spec calls
  the cache a map from keys to timestamps whose entries are reference-counted and
  evictable; the comment above \<^verbatim>\<open>rw_entry_iceberg_insert\<close> says that an absent key is
  inserted with value 0 and a present one gets its reference count increased, and the
  code treats a true result of \<^verbatim>\<open>iceberg_get_and_remove\<close> as "the key is evicted".
\<close>

record 'k transactional_splinterdb =
  tscache :: "'k \<Rightarrow> timestamp_set"
  tscache_refcount :: "'k \<rightharpoonup> nat"
  trace :: "'k event list"

text \<open>
  What the build and the key-value store decide: the experimental modes are macros of
  \<^verbatim>\<open>experimental_mode.h\<close> (not part of the sources), and \<open>splinterdb_rc\<close> is the return
  code of the store for an operation.  \<^verbatim>\<open>EXPERIMENTAL_MODE_BYPASS_SPLINTERDB\<close> is 0: line 864
  keeps the body of \<^verbatim>\<open>transactional_splinterdb_lookup\<close> only then.
\<close>

record 'k env =
  EXPERIMENTAL_MODE_SILO :: bool
  EXPERIMENTAL_MODE_KEEP_ALL_KEYS :: bool
  splinterdb_rc :: "'k event \<Rightarrow> int"

text \<open>
  How a function ends when it does not return: a failed \<^verbatim>\<open>platform_assert\<close>, a
  dereferenced \<^verbatim>\<open>NULL\<close>, a write past a buffer, or a lock loop that was still retrying
  when the schedule of the other threads ended.
\<close>

datatype error = Assert_failed | Null_pointer | Buffer_overrun | Still_retrying

definition log_event :: "'k event \<Rightarrow> 'k transactional_splinterdb \<Rightarrow> 'k transactional_splinterdb" where
  "log_event e db = db\<lparr>trace := trace db @ [e]\<rparr>"

definition timestamp_set_load :: "'k \<Rightarrow> 'k transactional_splinterdb \<Rightarrow> timestamp_set" where
  "timestamp_set_load k db = tscache db k"

definition timestamp_set_compare_and_swap ::
  "'k \<Rightarrow> timestamp_set \<Rightarrow> timestamp_set \<Rightarrow> 'k transactional_splinterdb
   \<Rightarrow> bool \<times> 'k transactional_splinterdb" where
  "timestamp_set_compare_and_swap k v1 v2 db =
     (if tscache db k = v1
      then (True, log_event (Cas k v1 v2 True) (db\<lparr>tscache := (tscache db)(k := v2)\<rparr>))
      else (False, log_event (Cas k v1 v2 False) db))"

definition platform_sleep_ns :: "nat \<Rightarrow> 'k transactional_splinterdb \<Rightarrow> 'k transactional_splinterdb" where
  "platform_sleep_ns n db = log_event (Sleep_ns n) db"

definition iceberg_insert_and_get ::
  "bool \<Rightarrow> 'k \<Rightarrow> 'k transactional_splinterdb \<Rightarrow> bool \<times> 'k transactional_splinterdb" where
  "iceberg_insert_and_get without_increasing_refcount k db =
     (case tscache_refcount db k of
        None \<Rightarrow>
          (True, db\<lparr>tscache := (tscache db)(k := \<lparr>ts_lock_bit = False, ts_delta = 0, ts_wts = 0\<rparr>),
                    tscache_refcount :=
                      (tscache_refcount db)(k \<mapsto> (if without_increasing_refcount then 0 else 1))\<rparr>)
      | Some n \<Rightarrow>
          (False, db\<lparr>tscache_refcount :=
                      (tscache_refcount db)(k \<mapsto> (if without_increasing_refcount then n else n + 1))\<rparr>))"

definition iceberg_get_and_remove ::
  "'k \<Rightarrow> 'k transactional_splinterdb \<Rightarrow> bool \<times> timestamp_set \<times> 'k transactional_splinterdb" where
  "iceberg_get_and_remove k db =
     (case tscache_refcount db k of
        None \<Rightarrow> (False, tscache db k, db)
      | Some n \<Rightarrow>
          if n \<le> 1
          then (True, tscache db k, db\<lparr>tscache_refcount := (tscache_refcount db)(k := None)\<rparr>)
          else (False, tscache db k, db\<lparr>tscache_refcount := (tscache_refcount db)(k \<mapsto> n - 1)\<rparr>))"

subsection \<open>Entries\<close>

definition rw_entry_create :: "'k \<Rightarrow> 'k rw_entry" where
  "rw_entry_create k =
     \<lparr>key = k, msg = None, wts = 0, rts = 0, tuple_ts = False, is_read = False,
      need_to_keep_key = False\<rparr>"

definition rw_entry_is_read :: "'k rw_entry \<Rightarrow> bool" where
  "rw_entry_is_read entry = is_read entry"

definition rw_entry_is_write :: "'k rw_entry \<Rightarrow> bool" where
  "rw_entry_is_write entry = (msg entry \<noteq> None)"

text \<open>
  \<^verbatim>\<open>memcpy(dst + off, src, n)\<close> on two buffers of known length: a copy that reads past the
  end of the source or writes past the end of the destination has left both buffers, and
  is an error here.
\<close>

definition memcpy :: "byte list \<Rightarrow> nat \<Rightarrow> byte list \<Rightarrow> nat \<Rightarrow> error + byte list" where
  "memcpy dst off src n =
     (if length src < n \<or> length dst < off + n then Inl Buffer_overrun
      else Inr (take off dst @ take n src @ drop (off + n) dst))"

text \<open>
  \<^verbatim>\<open>rw_entry_set_msg\<close>, lines 378-387: a zeroed buffer of
  \<^verbatim>\<open>tuple_size = sizeof(tuple_header) + message_length(msg)\<close> bytes, into which the
  application's bytes are copied after the header.  The \<^verbatim>\<open>memcpy\<close> of line 384 is given
  \<^verbatim>\<open>tuple_size\<close> as its length, not \<^verbatim>\<open>message_length(msg)\<close>.
\<close>

definition rw_entry_set_msg :: "'k rw_entry \<Rightarrow> message \<Rightarrow> error + 'k rw_entry" where
  "rw_entry_set_msg e m =
     (let tuple_size = sizeof_tuple_header + message_length m;
          msg_buf = replicate tuple_size 0
      in case memcpy msg_buf sizeof_tuple_header (message_data m) tuple_size of
           Inl err \<Rightarrow> Inl err
         | Inr buf \<Rightarrow>
             Inr (e\<lparr>msg := Some \<lparr>message_class = message_class m, message_data = buf\<rparr>\<rparr>))"


definition rw_entry_iceberg_insert ::
  "'k env \<Rightarrow> 'k rw_entry \<Rightarrow> 'k transactional_splinterdb
   \<Rightarrow> bool \<times> 'k rw_entry \<times> 'k transactional_splinterdb" where
  "rw_entry_iceberg_insert env entry db =
     (if tuple_ts entry then (False, entry, db)
      else (case iceberg_insert_and_get (EXPERIMENTAL_MODE_KEEP_ALL_KEYS env) (key entry) db of
              (is_new_item, db') \<Rightarrow>
                (is_new_item,
                 entry\<lparr>tuple_ts := True,
                       need_to_keep_key := (need_to_keep_key entry \<or> is_new_item)\<rparr>,
                 db')))"

definition rw_entry_iceberg_remove ::
  "'k env \<Rightarrow> 'k rw_entry \<Rightarrow> bool \<Rightarrow> 'k transactional_splinterdb
   \<Rightarrow> 'k rw_entry \<times> 'k transactional_splinterdb" where
  "rw_entry_iceberg_remove env entry upsert_ts db =
     (if \<not> tuple_ts entry then (entry, db)
      else if EXPERIMENTAL_MODE_KEEP_ALL_KEYS env then (entry\<lparr>tuple_ts := False\<rparr>, db)
      else (case iceberg_get_and_remove (key entry) db of
              (evicted, value_ht, db') \<Rightarrow>
                if evicted
                then (entry\<lparr>tuple_ts := False, need_to_keep_key := False\<rparr>,
                      if upsert_ts
                      then log_event
                             (Splinterdb_update (key entry)
                                (timestamp_set_bytes (value_ht\<lparr>ts_lock_bit := True\<rparr>))) db'
                      else db')
                else (entry\<lparr>tuple_ts := False\<rparr>, db')))"

text \<open>
  \<^verbatim>\<open>rw_entry_get\<close>: the first entry whose key compares equal, or a new zeroed entry
  appended to the set; the entry is a read entry from then on when \<open>is_read\<close> is given.
  The result is the index of the entry (the pointer of the source) and the transaction.
\<close>

fun rw_entry_find :: "'k rw_entry list \<Rightarrow> 'k \<Rightarrow> nat \<Rightarrow> nat option" where
  "rw_entry_find [] ukey i = None"
| "rw_entry_find (e # es) ukey i = (if ukey = key e then Some i else rw_entry_find es ukey (Suc i))"

definition rw_entry_get :: "'k transaction \<Rightarrow> 'k \<Rightarrow> bool \<Rightarrow> nat \<times> 'k transaction" where
  "rw_entry_get txn user_key is_read_arg =
     (let es = rw_entries txn;
          (i, es') = (case rw_entry_find es user_key 0 of
                        Some i \<Rightarrow> (i, es)
                      | None \<Rightarrow> (length es, es @ [rw_entry_create user_key]));
          entry = es' ! i
      in (i, txn\<lparr>rw_entries := es'[i := entry\<lparr>is_read := (is_read entry \<or> is_read_arg)\<rparr>]\<rparr>))"

text \<open>
  What the other threads do to the cache slots while this one is between two of its
  steps.
\<close>

type_synonym 'k interference = "('k \<Rightarrow> timestamp_set) \<Rightarrow> ('k \<Rightarrow> timestamp_set)"

text \<open>
  \<^verbatim>\<open>rw_entry_try_lock\<close>, lines 447-458: load the slot, give up if its lock bit is set,
  otherwise try to swap in the loaded value with the lock bit set.  \<open>other\<close> is what the
  other threads do between the load and the swap: the swap fails when they have changed
  the slot.
\<close>

definition rw_entry_try_lock ::
  "'k interference \<Rightarrow> 'k rw_entry \<Rightarrow> 'k transactional_splinterdb
   \<Rightarrow> bool \<times> 'k transactional_splinterdb" where
  "rw_entry_try_lock other entry db =
     (let v1 = timestamp_set_load (key entry) db in
      if ts_lock_bit v1 then (False, log_event (Try_lock (key entry) False) db)
      else (case timestamp_set_compare_and_swap (key entry) v1 (v1\<lparr>ts_lock_bit := True\<rparr>)
                   (db\<lparr>tscache := other (tscache db)\<rparr>) of
              (ok, db') \<Rightarrow> (ok, log_event (Try_lock (key entry) ok) db')))"

text \<open>
  \<^verbatim>\<open>do { load v1; v2 = v1; v2.lock_bit = 0; } while (!CAS(ts, &v1, &v2));\<close>
  Nothing runs between the load and the swap in this model, so the loop ends after the
  first swap: that is its termination proof.
\<close>

function rw_entry_unlock ::
  "'k rw_entry \<Rightarrow> 'k transactional_splinterdb \<Rightarrow> 'k transactional_splinterdb" where
  "rw_entry_unlock entry db =
     (let v1 = timestamp_set_load (key entry) db;
          v2 = v1\<lparr>ts_lock_bit := False\<rparr>;
          r = timestamp_set_compare_and_swap (key entry) v1 v2 db
      in if fst r then snd r else rw_entry_unlock entry (snd r))"
  by pat_completeness auto
termination
  by (relation "{}") (simp_all add: timestamp_set_compare_and_swap_def timestamp_set_load_def)

subsection \<open>Commit\<close>

text \<open>
  Lines 603-618: the read set and the write set hold pointers to the entries, here their
  indices (an entry can be in both), and \<open>commit_ts\<close> starts from the read entries.
\<close>

definition commit_partition ::
  "'k env \<Rightarrow> 'k rw_entry list \<Rightarrow> nat list \<times> nat list \<times> txn_timestamp" where
  "commit_partition env es =
     fold (\<lambda>i (read_set, write_set, commit_ts).
             let entry = es ! i;
                 write_set' = (if rw_entry_is_write entry then write_set @ [i] else write_set)
             in if rw_entry_is_read entry
                then (read_set @ [i], write_set',
                      max commit_ts (wts entry + (if EXPERIMENTAL_MODE_SILO env then 1 else 0)))
                else (read_set, write_set', commit_ts))
          [0..<length es] ([], [], 0)"

text \<open>
  \<^verbatim>\<open>platform_sort_slow\<close> is \<^verbatim>\<open>qsort_r\<close> with \<^verbatim>\<open>rw_entry_key_compare\<close>: the write set
  ordered by key.  (The keys of one transaction differ, so no order among equal keys
  is needed.)
\<close>

definition platform_sort_slow :: "('k::linorder) rw_entry list \<Rightarrow> nat list \<Rightarrow> nat list" where
  "platform_sort_slow es write_set = sort_key (\<lambda>i. key (es ! i)) write_set"

text \<open>
  One pass of the loop under \<^verbatim>\<open>RETRY_LOCK_WRITE_SET\<close>: \<open>acquired\<close> are the entries
  locked so far in this pass (\<^verbatim>\<open>write_set[0 .. lock_num - 1]\<close>).  \<open>Inr True\<close>: all are
  locked; \<open>Inr False\<close>: a lock was refused and those acquired were given back.
  \<open>between k\<close> is what the other threads do between the load and the swap of the
  \<^verbatim>\<open>rw_entry_try_lock\<close> on key \<open>k\<close> in this pass.
\<close>

fun lock_pass ::
  "('k \<Rightarrow> 'k interference) \<Rightarrow> 'k rw_entry list \<Rightarrow> 'k rw_entry list \<Rightarrow> 'k transactional_splinterdb
   \<Rightarrow> (error + bool) \<times> 'k transactional_splinterdb" where
  "lock_pass between acquired [] db = (Inr True, db)"
| "lock_pass between acquired (w # ws) db =
     (if \<not> tuple_ts w then (Inl Assert_failed, db)
      else (case rw_entry_try_lock (between (key w)) w db of
              (True, db') \<Rightarrow> lock_pass between (acquired @ [w]) ws db'
            | (False, db') \<Rightarrow> (Inr False, fold rw_entry_unlock acquired db')))"

text \<open>
  The retry loop: after a refused pass the thread sleeps 1000 ns and starts again.  What
  the other threads do meanwhile is the schedule, one element per pass: what they do
  inside the try-locks of the pass, and what they do during the sleep after it.  With the
  schedule used up the other threads do nothing more, and the loop is still retrying if
  its pass is refused.
\<close>

type_synonym 'k schedule = "(('k \<Rightarrow> 'k interference) \<times> 'k interference) list"

fun lock_write_set ::
  "'k schedule \<Rightarrow> 'k rw_entry list
   \<Rightarrow> 'k transactional_splinterdb \<Rightarrow> error option \<times> 'k transactional_splinterdb" where
  "lock_write_set sched ws db =
     (case lock_pass (case sched of [] \<Rightarrow> (\<lambda>k slots. slots) | s # sched' \<Rightarrow> fst s) [] ws db of
        (Inl e, db') \<Rightarrow> (Some e, db')
      | (Inr True, db') \<Rightarrow> (None, db')
      | (Inr False, db') \<Rightarrow>
          (let db'' = platform_sleep_ns 1000 db' in
           case sched of
             [] \<Rightarrow> (Some Still_retrying, db'')
           | s # sched' \<Rightarrow>
               lock_write_set sched' ws (db''\<lparr>tscache := snd s (tscache db'')\<rparr>)))"

text \<open>
  Lines 652-663.  \<^verbatim>\<open>is_new_entries\<close> is all zero, so the \<open>rts\<close> always comes from the
  cache slot; it is stored in the entry, which the read set may point to as well.
\<close>

fun write_set_rts ::
  "nat list \<Rightarrow> 'k rw_entry list \<Rightarrow> txn_timestamp \<Rightarrow> 'k transactional_splinterdb
   \<Rightarrow> 'k rw_entry list \<times> txn_timestamp" where
  "write_set_rts [] es commit_ts db = (es, commit_ts)"
| "write_set_rts (i # ws) es commit_ts db =
     (let w = es ! i;
          r = timestamp_set_get_rts (timestamp_set_load (key w) db)
      in write_set_rts ws (es[i := w\<lparr>rts := r\<rparr>]) (max commit_ts (r + 1)) db)"

text \<open>
  Lines 686-692 of the read validation: the extended timestamp \<open>v2\<close>, or the failed
  assertion on \<open>shift\<close>.
\<close>

definition extend_shift :: "txn_timestamp \<Rightarrow> txn_timestamp" where
  "extend_shift delta = delta - (delta AND UINT64_MAX)"

definition read_entry_extension :: "txn_timestamp \<Rightarrow> timestamp_set \<Rightarrow> error + timestamp_set" where
  "read_entry_extension commit_ts v1 =
     (let delta = commit_ts - ucast (ts_wts v1);
          shift = extend_shift delta
      in if shift \<noteq> 0 then Inl Assert_failed
         else Inr (v1\<lparr>ts_wts := ucast (ucast (ts_wts v1) + shift),
                       ts_delta := ucast (delta - shift)\<rparr>))"

text \<open>
  Lines 673-696, the \<^verbatim>\<open>do ... while (!is_success)\<close> loop for one read entry: the result
  is \<open>is_abort\<close>.  As in \<open>rw_entry_unlock\<close> the swap follows the load at once.
\<close>

function read_entry_validate ::
  "txn_timestamp \<Rightarrow> 'k rw_entry \<Rightarrow> 'k transactional_splinterdb
   \<Rightarrow> error + (bool \<times> 'k transactional_splinterdb)" where
  "read_entry_validate commit_ts r db =
     (let v1 = timestamp_set_load (key r) db;
          is_wts_different = (wts r \<noteq> ucast (ts_wts v1));
          rts_now = timestamp_set_get_rts v1;
          is_locked_by_another =
            (rts_now \<le> commit_ts \<and> ts_lock_bit (tscache db (key r)) \<and> \<not> rw_entry_is_write r)
      in if is_wts_different \<or> is_locked_by_another then Inr (True, db)
         else if rts_now \<le> commit_ts
         then (case read_entry_extension commit_ts v1 of
                 Inl e \<Rightarrow> Inl e
               | Inr v2 \<Rightarrow>
                   (let res = timestamp_set_compare_and_swap (key r) v1 v2 db
                    in if fst res then Inr (False, snd res)
                       else read_entry_validate commit_ts r (snd res)))
         else Inr (False, db))"
  by pat_completeness auto
termination
  by (relation "{}") (simp_all add: timestamp_set_compare_and_swap_def timestamp_set_load_def)

text \<open>
  Lines 666-703: the loop over the read set stops at the first abort.  An entry whose
  recorded \<open>rts\<close> is below \<open>commit_ts\<close> is validated and then, unless it is a write entry
  too, given back to the cache with its timestamps written to the store if it is evicted.
\<close>

fun read_set_validate ::
  "'k env \<Rightarrow> txn_timestamp \<Rightarrow> nat list \<Rightarrow> 'k rw_entry list \<Rightarrow> 'k transactional_splinterdb
   \<Rightarrow> error + (bool \<times> 'k rw_entry list \<times> 'k transactional_splinterdb)" where
  "read_set_validate env commit_ts [] es db = Inr (False, es, db)"
| "read_set_validate env commit_ts (i # rs) es db =
     (let r = es ! i in
      if \<not> rw_entry_is_read r then Inl Assert_failed
      else if rts r < commit_ts
      then (if \<not> tuple_ts r then Inl Null_pointer
            else (case read_entry_validate commit_ts r db of
                    Inl e \<Rightarrow> Inl e
                  | Inr (is_abort, db') \<Rightarrow>
                      (case (if \<not> rw_entry_is_write r
                             then rw_entry_iceberg_remove env r True db'
                             else (r, db')) of
                         (r', db'') \<Rightarrow>
                           if is_abort then Inr (True, es[i := r'], db'')
                           else read_set_validate env commit_ts rs (es[i := r']) db'')))
      else read_set_validate env commit_ts rs es db)"

text \<open>
  Lines 739-746: \<^verbatim>\<open>do { load v1; v2 = {commit_ts, 0, 0}; } while (!CAS(ts, &v1, &v2));\<close>
\<close>

function write_entry_publish ::
  "txn_timestamp \<Rightarrow> 'k rw_entry \<Rightarrow> 'k transactional_splinterdb \<Rightarrow> 'k transactional_splinterdb" where
  "write_entry_publish commit_ts w db =
     (let v1 = timestamp_set_load (key w) db;
          v2 = v1\<lparr>ts_wts := ucast commit_ts, ts_delta := 0, ts_lock_bit := False\<rparr>;
          res = timestamp_set_compare_and_swap (key w) v1 v2 db
      in if fst res then snd res else write_entry_publish commit_ts w (snd res))"
  by pat_completeness auto
termination
  by (relation "{}") (simp_all add: timestamp_set_compare_and_swap_def timestamp_set_load_def)

text \<open>
  Lines 715-733: the header is written into the first \<^verbatim>\<open>sizeof(tuple_header)\<close> bytes of
  the buffered message, and the operation of the message's class is issued.
\<close>

definition commit_header :: "txn_timestamp \<Rightarrow> tuple_header" where
  "commit_header commit_ts = \<lparr>th_is_ts_update = False, th_delta = 0, th_wts = ucast commit_ts\<rparr>"

definition message_set_header :: "tuple_header \<Rightarrow> message \<Rightarrow> message" where
  "message_set_header h m =
     m\<lparr>message_data := tuple_header_bytes h @ drop sizeof_tuple_header (message_data m)\<rparr>"

definition splinterdb_operation :: "'k \<Rightarrow> message \<Rightarrow> 'k event" where
  "splinterdb_operation k m =
     (case message_class m of
        MESSAGE_TYPE_INSERT \<Rightarrow> Splinterdb_insert k (message_data m)
      | MESSAGE_TYPE_UPDATE \<Rightarrow> Splinterdb_update k (message_data m)
      | MESSAGE_TYPE_DELETE \<Rightarrow> Splinterdb_delete k)"

text \<open>Lines 708-747, the loop over the write set of a commit that does not abort.\<close>

fun write_set_apply ::
  "'k env \<Rightarrow> txn_timestamp \<Rightarrow> nat list \<Rightarrow> 'k rw_entry list \<Rightarrow> 'k transactional_splinterdb
   \<Rightarrow> error + ('k rw_entry list \<times> 'k transactional_splinterdb)" where
  "write_set_apply env commit_ts [] es db = Inr (es, db)"
| "write_set_apply env commit_ts (i # ws) es db =
     (let w = es ! i in
      case msg w of
        None \<Rightarrow> Inl Assert_failed
      | Some m \<Rightarrow>
          if message_length m < sizeof_tuple_header then Inl Buffer_overrun
          else (let m' = message_set_header (commit_header commit_ts) m;
                    w' = w\<lparr>msg := Some m'\<rparr>;
                    operation = splinterdb_operation (key w) m'
                in if splinterdb_rc env operation \<noteq> 0 then Inl Assert_failed
                   else write_set_apply env commit_ts ws (es[i := w'])
                          (write_entry_publish commit_ts w' (log_event operation db))))"

text \<open>Lines 582-590: every entry is given back to the cache, without a timestamp update.\<close>

definition transaction_deinit ::
  "'k env \<Rightarrow> 'k rw_entry list \<Rightarrow> 'k transactional_splinterdb \<Rightarrow> 'k transactional_splinterdb" where
  "transaction_deinit env es db = fold (\<lambda>e d. snd (rw_entry_iceberg_remove env e False d)) es db"

text \<open>
  Lines 665-757 of \<^verbatim>\<open>transactional_splinterdb_commit\<close>: everything after \<open>commit_ts\<close> is
  known.  The result is the return code \<^verbatim>\<open>-1 * is_abort\<close> and the shared state; the
  transaction's entries are freed.
\<close>

definition commit_validate_and_write ::
  "'k env \<Rightarrow> txn_timestamp \<Rightarrow> nat list \<Rightarrow> nat list \<Rightarrow> 'k rw_entry list
   \<Rightarrow> 'k transactional_splinterdb \<Rightarrow> error + (int \<times> 'k transactional_splinterdb)" where
  "commit_validate_and_write env commit_ts read_set write_set es db =
     (case read_set_validate env commit_ts read_set es db of
        Inl e \<Rightarrow> Inl e
      | Inr (is_abort, es2, db2) \<Rightarrow>
          (case (if \<not> is_abort
                 then write_set_apply env commit_ts write_set es2 db2
                 else Inr (es2, fold rw_entry_unlock (map (\<lambda>i. es2 ! i) write_set) db2)) of
             Inl e \<Rightarrow> Inl e
           | Inr (es3, db3) \<Rightarrow>
               Inr (- (if is_abort then 1 else 0), transaction_deinit env es3 db3)))"

text \<open>
  \<^verbatim>\<open>transactional_splinterdb_commit\<close>: partition, sort, lock, compute \<open>commit_ts\<close>, then
  validate and write.
\<close>

definition transactional_splinterdb_commit ::
  "('k::linorder) env \<Rightarrow> 'k schedule \<Rightarrow> 'k transaction
   \<Rightarrow> 'k transactional_splinterdb \<Rightarrow> error + (int \<times> 'k transactional_splinterdb)" where
  "transactional_splinterdb_commit env sched txn db =
     (let es = rw_entries txn in
      case commit_partition env es of
        (read_set, write_set0, commit_ts0) \<Rightarrow>
          (let write_set = platform_sort_slow es write_set0 in
           case lock_write_set sched (map (\<lambda>i. es ! i) write_set) db of
             (Some e, db1) \<Rightarrow> Inl e
           | (None, db1) \<Rightarrow>
               (case write_set_rts write_set es commit_ts0 db1 of
                  (es1, commit_ts) \<Rightarrow>
                    commit_validate_and_write env commit_ts read_set write_set es1 db1)))"

subsection \<open>Lookup\<close>

text \<open>
  \<^verbatim>\<open>transactional_splinterdb_lookup\<close> as the file has it: after
  \<^verbatim>\<open>rw_entry_iceberg_insert\<close> comes the \<^verbatim>\<open>if (rw_entry_is_write(entry)) ... else ...\<close> of
  lines 865-881, then \<^verbatim>\<open>return rc;\<close> on line 882 and the brace on line 883 that closes the
  function.  The \<^verbatim>\<open>do ... while\<close> loop of lines 885-911, which loads the snapshot, looks
  the key up in the store and swaps the maximum into the cache, stands after that brace
  and is never run.  \<open>result\<close> is the value buffer of the \<^verbatim>\<open>splinterdb_lookup_result\<close>.
\<close>

definition transactional_splinterdb_lookup ::
  "'k env \<Rightarrow> 'k transaction \<Rightarrow> 'k \<Rightarrow> byte list \<Rightarrow> 'k transactional_splinterdb
   \<Rightarrow> int \<times> 'k transaction \<times> byte list \<times> 'k transactional_splinterdb" where
  "transactional_splinterdb_lookup env txn user_key result db =
     (case rw_entry_get txn user_key True of
        (i, txn1) \<Rightarrow>
          (case rw_entry_iceberg_insert env (rw_entries txn1 ! i) db of
             (is_new_entry, entry, db1) \<Rightarrow>
               (case msg entry of
                  Some m \<Rightarrow>
                    (0, txn1\<lparr>rw_entries := (rw_entries txn1)[i := entry]\<rparr>, message_data m, db1)
                | None \<Rightarrow>
                    (let v1 = timestamp_set_load (key entry) db1;
                         entry' = entry\<lparr>wts := ucast (ts_wts v1), rts := timestamp_set_get_rts v1\<rparr>
                     in (0, txn1\<lparr>rw_entries := (rw_entries txn1)[i := entry']\<rparr>, result, db1)))))"

section \<open>Properties of the transaction layer\<close>

subsection \<open>The compare-and-swap loops\<close>

text \<open>
  A swap whose expected value was just loaded succeeds, so each of the three loops
  around a swap runs its body once.
\<close>

declare rw_entry_unlock.simps [simp del]
declare write_entry_publish.simps [simp del]
declare read_entry_validate.simps [simp del]

lemma cas_loaded:
  "timestamp_set_compare_and_swap k (tscache db k) v2 db
     = (True, log_event (Cas k (tscache db k) v2 True) (db\<lparr>tscache := (tscache db)(k := v2)\<rparr>))"
  by (simp add: timestamp_set_compare_and_swap_def)

lemma rw_entry_unlock_eq:
  "rw_entry_unlock e db =
     log_event (Cas (key e) (tscache db (key e)) ((tscache db (key e))\<lparr>ts_lock_bit := False\<rparr>) True)
       (db\<lparr>tscache := (tscache db)(key e := (tscache db (key e))\<lparr>ts_lock_bit := False\<rparr>)\<rparr>)"
  by (subst rw_entry_unlock.simps) (simp add: Let_def timestamp_set_load_def cas_loaded)

lemma timestamp_set_overwrite:
  "(v :: timestamp_set)\<lparr>ts_wts := a, ts_delta := b, ts_lock_bit := c\<rparr>
     = \<lparr>ts_lock_bit = c, ts_delta = b, ts_wts = a\<rparr>"
  by (cases v) simp

lemma write_entry_publish_eq:
  "write_entry_publish commit_ts w db =
     log_event (Cas (key w) (tscache db (key w))
                  \<lparr>ts_lock_bit = False, ts_delta = 0, ts_wts = ucast commit_ts\<rparr> True)
       (db\<lparr>tscache := (tscache db)(key w :=
              \<lparr>ts_lock_bit = False, ts_delta = 0, ts_wts = ucast commit_ts\<rparr>)\<rparr>)"
  by (subst write_entry_publish.simps)
     (simp add: Let_def timestamp_set_load_def cas_loaded timestamp_set_overwrite)

lemma read_entry_validate_eq:
  "read_entry_validate commit_ts r db =
     (let v1 = tscache db (key r) in
      if wts r \<noteq> ucast (ts_wts v1)
         \<or> (timestamp_set_get_rts v1 \<le> commit_ts \<and> ts_lock_bit v1 \<and> \<not> rw_entry_is_write r)
      then Inr (True, db)
      else if timestamp_set_get_rts v1 \<le> commit_ts
      then (case read_entry_extension commit_ts v1 of
              Inl e \<Rightarrow> Inl e
            | Inr v2 \<Rightarrow>
                Inr (False, log_event (Cas (key r) v1 v2 True) (db\<lparr>tscache := (tscache db)(key r := v2)\<rparr>)))
      else Inr (False, db))"
  by (subst read_entry_validate.simps)
     (simp add: Let_def timestamp_set_load_def cas_loaded split: sum.splits)

subsection \<open>The shift of the read-set extension\<close>

lemma UINT64_MAX_mask: "UINT64_MAX = mask 64"
  by (simp add: UINT64_MAX_def mask_eq_exp_minus_1)

lemma extend_shift_zero: "extend_shift d = 0 \<longleftrightarrow> d \<le> UINT64_MAX"
proof -
  have m: "d AND UINT64_MAX = take_bit 64 d"
    by (simp add: UINT64_MAX_mask take_bit_eq_mask)
  have "extend_shift d = 0 \<longleftrightarrow> take_bit 64 d = d"
    by (auto simp: extend_shift_def m)
  also have "\<dots> \<longleftrightarrow> unat (take_bit 64 d) = unat d"
    by (simp only: word_unat_eq_iff)
  also have "\<dots> \<longleftrightarrow> take_bit 64 (unat d) = unat d"
    by (simp only: unsigned_take_bit_eq)
  also have "\<dots> \<longleftrightarrow> unat d mod 2 ^ 64 = unat d"
    by (simp only: take_bit_eq_mod)
  also have "\<dots> \<longleftrightarrow> unat d < 2 ^ 64"
    by (metis mod_less mod_less_divisor zero_less_numeral zero_less_power)
  also have "\<dots> \<longleftrightarrow> d \<le> UINT64_MAX"
    by (simp add: word_le_nat_alt UINT64_MAX_def) arith
  finally show ?thesis .
qed

lemma extend_shift_fits: "d \<le> UINT64_MAX \<Longrightarrow> extend_shift d = 0"
  by (simp add: extend_shift_zero)

lemma ucast_wts_id: "(ucast (ucast (w :: 63 word) :: 128 word) :: 63 word) = w"
  by (rule ucast_up_ucast_id) (simp add: is_up)

lemma read_entry_extension_cases:
  "read_entry_extension commit_ts v1 =
     (if commit_ts - ucast (ts_wts v1) \<le> UINT64_MAX
      then Inr (v1\<lparr>ts_delta := ucast (commit_ts - ucast (ts_wts v1))\<rparr>)
      else Inl Assert_failed)"
  by (simp add: read_entry_extension_def Let_def extend_shift_zero extend_shift_fits ucast_wts_id)

subsection \<open>The commit timestamp\<close>

definition commit_read_set :: "'k rw_entry list \<Rightarrow> nat list" where
  "commit_read_set es = filter (\<lambda>i. rw_entry_is_read (es ! i)) [0..<length es]"

definition commit_write_set :: "('k::linorder) rw_entry list \<Rightarrow> nat list" where
  "commit_write_set es =
     platform_sort_slow es (filter (\<lambda>i. rw_entry_is_write (es ! i)) [0..<length es])"

declare lock_write_set.simps [simp del]

lemma fold_max_Max:
  fixes c :: "'a::linorder"
  shows "fold (\<lambda>i c. max c (g i)) xs c = Max (insert c (g ` set xs))"
proof (induction xs arbitrary: c)
  case Nil
  then show ?case by simp
next
  case (Cons x xs)
  have "Max (insert (max c (g x)) (g ` set xs)) = Max (insert c (insert (g x) (g ` set xs)))"
    by (cases "g ` set xs = {}") (simp_all add: max.assoc)
  then show ?case by (simp add: Cons.IH)
qed

lemma commit_partition_fold:
  "fold (\<lambda>i (read_set, write_set, commit_ts).
             let entry = es ! i;
                 write_set' = (if rw_entry_is_write entry then write_set @ [i] else write_set)
             in if rw_entry_is_read entry
                then (read_set @ [i], write_set',
                      max commit_ts (wts entry + eps))
                else (read_set, write_set', commit_ts))
          xs (rs, ws, c)
   = (rs @ filter (\<lambda>i. rw_entry_is_read (es ! i)) xs,
      ws @ filter (\<lambda>i. rw_entry_is_write (es ! i)) xs,
      fold (\<lambda>i c. max c (wts (es ! i) + eps)) (filter (\<lambda>i. rw_entry_is_read (es ! i)) xs) c)"
  by (induction xs arbitrary: rs ws c) (simp_all add: Let_def)

lemma commit_partition_eq:
  "commit_partition env es =
     (commit_read_set es,
      filter (\<lambda>i. rw_entry_is_write (es ! i)) [0..<length es],
      Max (insert 0 ((\<lambda>i. wts (es ! i) + (if EXPERIMENTAL_MODE_SILO env then 1 else 0))
                       ` set (commit_read_set es))))"
  unfolding commit_partition_def commit_read_set_def
  by (simp only: commit_partition_fold fold_max_Max append_Nil)

lemma write_set_rts_key:
  "map key (fst (write_set_rts ws es c db)) = map key es"
proof (induction ws arbitrary: es c)
  case Nil
  then show ?case by simp
next
  case (Cons i ws)
  have "map key (es[i := (es ! i)\<lparr>rts := r\<rparr>]) = map key es" for r
    by (cases "i < length es") (simp_all add: map_update list_update_same_conv list_update_beyond)
  then show ?case by (simp add: Let_def Cons.IH)
qed

lemma write_set_rts_commit_ts:
  "snd (write_set_rts ws es c db)
     = Max (insert c ((\<lambda>i. timestamp_set_get_rts (tscache db (key (es ! i))) + 1) ` set ws))"
proof (induction ws arbitrary: es c)
  case Nil
  then show ?case by simp
next
  case (Cons i ws)
  let ?g = "\<lambda>es i. timestamp_set_get_rts (tscache db (key (es ! i))) + 1"
  have k: "key (es[i := (es ! i)\<lparr>rts := r\<rparr>] ! j) = key (es ! j)" for r j
    by (cases "i < length es"; cases "j = i") (simp_all add: list_update_beyond)
  have "Max (insert (max c (?g es i)) (?g es ` set ws)) = Max (insert c (insert (?g es i) (?g es ` set ws)))"
    by (cases "?g es ` set ws = {}") (simp_all add: max.assoc)
  then show ?case
    by (simp add: Let_def Cons.IH k timestamp_set_load_def)
qed

lemma write_set_rts_fst:
  "fst (write_set_rts ws es c db) = fst (write_set_rts ws es 0 db)"
proof (induction ws arbitrary: es c)
  case Nil
  then show ?case by simp
next
  case (Cons i ws)
  show ?case
    by (simp add: Let_def) (metis Cons.IH)
qed


lemma image_nth_filter:
  "(\<lambda>i. h (es ! i)) ` set (filter (\<lambda>i. P (es ! i)) [0..<length es]) = h ` set (filter P es)"
  by (auto simp: in_set_conv_nth image_iff)

lemma Max_with_zero:
  fixes A B :: "txn_timestamp set"
  assumes "finite A" "finite B" "A \<union> B \<noteq> {}"
  shows "Max (insert (Max (insert 0 A)) B) = Max (A \<union> B)"
proof -
  have a: "Max (insert 0 A) = (if A = {} then 0 else Max A)"
    using assms(1) by (simp add: max_def)
  show ?thesis
  proof (cases "A = {}")
    case True
    with assms have "B \<noteq> {}" by simp
    with True assms a show ?thesis by (simp add: max_def)
  next
    case False
    show ?thesis
    proof (cases "B = {}")
      case True
      with False a show ?thesis by simp
    next
      case B: False
      with False a assms show ?thesis by (simp add: Max_Un max.commute)
    qed
  qed
qed

text \<open>
  Claim C1: \<open>commit_ts\<close>, as the commit passes it to the validation of the read set and
  to the writes, is the maximum of the observed \<open>wts\<close> of the read entries (plus 1 in the
  Silo mode) and of the current \<open>rts\<close> plus 1 of the write entries, for every transaction
  with a read or a write entry.  \<open>db1\<close> is the state in which the write set is locked.
\<close>

theorem commit_ts_is_maximum:
  assumes "filter rw_entry_is_read (rw_entries txn) @ filter rw_entry_is_write (rw_entries txn) \<noteq> []"
  shows "transactional_splinterdb_commit env sched txn db =
     (let es = rw_entries txn; eps = (if EXPERIMENTAL_MODE_SILO env then 1 else 0) in
      case lock_write_set sched (map (\<lambda>i. es ! i) (commit_write_set es)) db of
        (Some e, db1) \<Rightarrow> Inl e
      | (None, db1) \<Rightarrow>
          commit_validate_and_write env
            (Max (set (map (\<lambda>e. wts e + eps) (filter rw_entry_is_read es)
                       @ map (\<lambda>e. timestamp_set_get_rts (tscache db1 (key e)) + 1)
                           (filter rw_entry_is_write es))))
            (commit_read_set es) (commit_write_set es)
            (fst (write_set_rts (commit_write_set es) es 0 db1)) db1)"
proof -
  define es where "es = rw_entries txn"
  define eps :: txn_timestamp where "eps = (if EXPERIMENTAL_MODE_SILO env then 1 else 0)"
  define A where "A = (\<lambda>e. wts e + eps) ` set (filter rw_entry_is_read es)"
  define c0 where "c0 = Max (insert 0 A)"
  have part: "commit_partition env es =
      (commit_read_set es, filter (\<lambda>i. rw_entry_is_write (es ! i)) [0..<length es], c0)"
    unfolding commit_partition_eq c0_def A_def eps_def commit_read_set_def
    using image_nth_filter [of "\<lambda>e. wts e + (if EXPERIMENTAL_MODE_SILO env then 1 else 0)" es rw_entry_is_read]
    by simp
  have ne: "A \<union> (\<lambda>e. g e) ` set (filter rw_entry_is_write es) \<noteq> {}" for g :: "'a rw_entry \<Rightarrow> txn_timestamp"
    using assms unfolding A_def es_def by auto
  have ts: "snd (write_set_rts (commit_write_set es) es c0 db1)
      = Max (set (map (\<lambda>e. wts e + eps) (filter rw_entry_is_read es)
                  @ map (\<lambda>e. timestamp_set_get_rts (tscache db1 (key e)) + 1)
                      (filter rw_entry_is_write es)))" for db1
  proof -
    let ?g = "\<lambda>e. timestamp_set_get_rts (tscache db1 (key e)) + 1"
    have "(\<lambda>i. ?g (es ! i)) ` set (commit_write_set es) = ?g ` set (filter rw_entry_is_write es)"
      unfolding commit_write_set_def platform_sort_slow_def
      using image_nth_filter [of ?g es rw_entry_is_write] by simp
    then have "snd (write_set_rts (commit_write_set es) es c0 db1)
        = Max (insert c0 (?g ` set (filter rw_entry_is_write es)))"
      by (simp only: write_set_rts_commit_ts)
    also have "\<dots> = Max (A \<union> ?g ` set (filter rw_entry_is_write es))"
      unfolding c0_def
    proof (rule Max_with_zero)
      show "A \<union> ?g ` set (filter rw_entry_is_write es) \<noteq> {}" by (rule ne)
    qed (simp_all add: A_def)
    finally show ?thesis by (simp add: A_def)
  qed
  have fst0: "fst (write_set_rts (commit_write_set es) es c0 db1)
      = fst (write_set_rts (commit_write_set es) es 0 db1)" for db1
    by (rule write_set_rts_fst)
  have body: "(case write_set_rts (commit_write_set es) es c0 db1 of
                 (es1, commit_ts) \<Rightarrow>
                   commit_validate_and_write env commit_ts (commit_read_set es) (commit_write_set es) es1 db1)
      = commit_validate_and_write env
          (Max (set (map (\<lambda>e. wts e + eps) (filter rw_entry_is_read es)
                     @ map (\<lambda>e. timestamp_set_get_rts (tscache db1 (key e)) + 1)
                         (filter rw_entry_is_write es))))
          (commit_read_set es) (commit_write_set es)
          (fst (write_set_rts (commit_write_set es) es 0 db1)) db1" for db1
    by (simp only: case_prod_beta ts fst0)
  show ?thesis
  proof (cases "lock_write_set sched (map (\<lambda>i. es ! i) (commit_write_set es)) db")
    case (Pair r db1)
    show ?thesis
      unfolding transactional_splinterdb_commit_def Let_def es_def [symmetric] eps_def [symmetric]
        part prod.case commit_write_set_def [symmetric] Pair
      by (cases r) (simp_all only: option.case body)
  qed
qed

subsection \<open>A committing transaction\<close>

text \<open>
  A transaction over natural-number keys that has read key 1 (observing \<open>wts = 3\<close>,
  \<open>rts = 5\<close>) and buffered an insert of the byte 7 for key 2, whose cached timestamps are
  \<open>wts = 4\<close>, \<open>delta = 1\<close>: the commit timestamp is \<open>max 3 (5 + 1) = 6\<close>.
\<close>

definition env0 :: "nat env" where
  "env0 = \<lparr>EXPERIMENTAL_MODE_SILO = False, EXPERIMENTAL_MODE_KEEP_ALL_KEYS = False,
           splinterdb_rc = (\<lambda>_. 0)\<rparr>"

definition db0 :: "nat transactional_splinterdb" where
  "db0 = \<lparr>tscache = (\<lambda>_. \<lparr>ts_lock_bit = False, ts_delta = 0, ts_wts = 0\<rparr>)
                      (1 := \<lparr>ts_lock_bit = False, ts_delta = 2, ts_wts = 3\<rparr>,
                       2 := \<lparr>ts_lock_bit = False, ts_delta = 1, ts_wts = 4\<rparr>),
          tscache_refcount = [1 \<mapsto> 1, 2 \<mapsto> 1],
          trace = []\<rparr>"

definition txn0 :: "nat transaction" where
  "txn0 = \<lparr>rw_entries =
      [\<lparr>key = 1, msg = None, wts = 3, rts = 5, tuple_ts = True, is_read = True, need_to_keep_key = True\<rparr>,
       \<lparr>key = 2, msg = Some \<lparr>message_class = MESSAGE_TYPE_INSERT,
                            message_data = replicate 16 0 @ [7]\<rparr>,
        wts = 0, rts = 0, tuple_ts = True, is_read = False, need_to_keep_key = True\<rparr>]\<rparr>"

text \<open>C1 on this transaction: what the commit does with \<open>commit_ts = 6\<close>.\<close>

theorem commit_ts_is_maximum_witness:
  "(case transactional_splinterdb_commit env0 [] txn0 db0 of
      Inr (rc, db') \<Rightarrow> Some (rc, trace db')
    | Inl e \<Rightarrow> None)
   = Some (0, [Cas 2 \<lparr>ts_lock_bit = False, ts_delta = 1, ts_wts = 4\<rparr>
                     \<lparr>ts_lock_bit = True, ts_delta = 1, ts_wts = 4\<rparr> True,
               Try_lock 2 True,
               Cas 1 \<lparr>ts_lock_bit = False, ts_delta = 2, ts_wts = 3\<rparr>
                     \<lparr>ts_lock_bit = False, ts_delta = 3, ts_wts = 3\<rparr> True,
               Splinterdb_update 1 [7, 0, 0, 0, 0, 0, 0, 0, 6, 0, 0, 0, 0, 0, 0, 0],
               Splinterdb_insert 2 [0, 0, 0, 0, 0, 0, 0, 0, 12, 0, 0, 0, 0, 0, 0, 0, 7],
               Cas 2 \<lparr>ts_lock_bit = True, ts_delta = 1, ts_wts = 4\<rparr>
                     \<lparr>ts_lock_bit = False, ts_delta = 0, ts_wts = 6\<rparr> True])"
proof -
  have h: "filter rw_entry_is_read (rw_entries txn0) @ filter rw_entry_is_write (rw_entries txn0) \<noteq> []"
    by (simp add: txn0_def rw_entry_is_read_def)
  show ?thesis
    unfolding commit_ts_is_maximum [OF h] by code_simp
qed

subsection \<open>Locking the write set\<close>

text \<open>
  The no-wait rule, read off the trace.  The checker walks the events of the lock loop
  with the keys still to be tried in the current pass, the keys whose lock this
  transaction holds, and where it is in the pass.  A swap that sets a lock bit is
  on the next key of the sorted write set, and the \<^verbatim>\<open>rw_entry_try_lock\<close> that follows
  reports its outcome; a try-lock without a swap has found the lock bit set.  After a
  refused lock nothing but the release of the locks held is accepted, in the order in
  which they were taken, then a sleep of 1000 ns with no lock held, after which the next
  pass starts from the first key again.  The loop issues nothing else.
\<close>

datatype lock_phase = Trying | Swapped bool | Refused

fun protocol_step ::
  "'k list \<Rightarrow> 'k list \<times> 'k list \<times> lock_phase \<Rightarrow> 'k event
   \<Rightarrow> ('k list \<times> 'k list \<times> lock_phase) option" where
  "protocol_step ks (todo, held, phase) (Cas k v1 v2 ok) =
     (case phase of
        Trying \<Rightarrow>
          (case todo of
             [] \<Rightarrow> None
           | k' # todo' \<Rightarrow>
               if k = k' \<and> \<not> ts_lock_bit v1 \<and> v2 = v1\<lparr>ts_lock_bit := True\<rparr>
               then Some (todo, held, Swapped ok) else None)
      | Swapped b \<Rightarrow> None
      | Refused \<Rightarrow>
          (case held of
             [] \<Rightarrow> None
           | k' # held' \<Rightarrow>
               if k = k' \<and> ok \<and> v2 = v1\<lparr>ts_lock_bit := False\<rparr>
               then Some (todo, held', Refused) else None))"
| "protocol_step ks (todo, held, phase) (Try_lock k ok) =
     (case todo of
        [] \<Rightarrow> None
      | k' # todo' \<Rightarrow>
          if k = k'
          then (case phase of
                  Trying \<Rightarrow> if ok then None else Some (todo', held, Refused)
                | Swapped b \<Rightarrow>
                    if ok = b
                    then Some (todo', if ok then held @ [k] else held, if ok then Trying else Refused)
                    else None
                | Refused \<Rightarrow> None)
          else None)"
| "protocol_step ks (todo, held, phase) (Sleep_ns n) =
     (if n = 1000 \<and> phase = Refused \<and> held = [] then Some (ks, [], Trying) else None)"
| "protocol_step ks st (Splinterdb_insert k bytes) = None"
| "protocol_step ks st (Splinterdb_update k bytes) = None"
| "protocol_step ks st (Splinterdb_delete k) = None"
| "protocol_step ks st (Splinterdb_lookup k) = None"

fun protocol_run ::
  "'k list \<Rightarrow> 'k list \<times> 'k list \<times> lock_phase \<Rightarrow> 'k event list
   \<Rightarrow> ('k list \<times> 'k list \<times> lock_phase) option" where
  "protocol_run ks st [] = Some st"
| "protocol_run ks st (ev # evs) =
     (case protocol_step ks st ev of None \<Rightarrow> None | Some st' \<Rightarrow> protocol_run ks st' evs)"

text \<open>
  The events of a lock loop that ended with \<open>result\<close>: when it returned (\<open>None\<close>), every
  key has been tried and every lock is held; when it was still retrying, it has just
  slept, with no lock held and every key to be tried again.
\<close>

definition no_wait_protocol :: "'k list \<Rightarrow> 'k event list \<Rightarrow> error option \<Rightarrow> bool" where
  "no_wait_protocol ks evs result =
     (if result = None then protocol_run ks (ks, [], Trying) evs = Some ([], ks, Trying)
      else if result = Some Still_retrying
      then protocol_run ks (ks, [], Trying) evs = Some (ks, [], Trying)
           \<and> evs \<noteq> [] \<and> last evs = Sleep_ns 1000
      else protocol_run ks (ks, [], Trying) evs \<noteq> None)"


lemma trace_log_event [simp]: "trace (log_event e db) = trace db @ [e]"
  by (simp add: log_event_def)

lemma tscache_log_event [simp]: "tscache (log_event e db) = tscache db"
  by (simp add: log_event_def)

lemma tscache_refcount_log_event [simp]: "tscache_refcount (log_event e db) = tscache_refcount db"
  by (simp add: log_event_def)

lemma rw_entry_try_lock_eq:
  "rw_entry_try_lock other w db =
     (let v1 = tscache db (key w) in
      if ts_lock_bit v1 then (False, log_event (Try_lock (key w) False) db)
      else if other (tscache db) (key w) = v1
      then (True, log_event (Try_lock (key w) True)
                    (log_event (Cas (key w) v1 (v1\<lparr>ts_lock_bit := True\<rparr>) True)
                       (db\<lparr>tscache := (other (tscache db))(key w := v1\<lparr>ts_lock_bit := True\<rparr>)\<rparr>)))
      else (False, log_event (Try_lock (key w) False)
                     (log_event (Cas (key w) v1 (v1\<lparr>ts_lock_bit := True\<rparr>) False)
                        (db\<lparr>tscache := other (tscache db)\<rparr>))))"
  by (simp add: rw_entry_try_lock_def Let_def timestamp_set_load_def
        timestamp_set_compare_and_swap_def)





text \<open>The interference inside the try-locks of the next pass.\<close>

definition pass_interference :: "'k schedule \<Rightarrow> 'k \<Rightarrow> 'k interference" where
  "pass_interference sched = (case sched of [] \<Rightarrow> (\<lambda>k slots. slots) | s # sched' \<Rightarrow> fst s)"

lemma lock_write_set_done:
  "lock_pass (pass_interference sched) [] ws db = (res, db') \<Longrightarrow> res \<noteq> Inr False
   \<Longrightarrow> lock_write_set sched ws db = (case res of Inl e \<Rightarrow> Some e | Inr b \<Rightarrow> None, db')"
  unfolding pass_interference_def
  by (subst lock_write_set.simps, cases res) (simp_all split: bool.splits)

lemma lock_write_set_retry:
  "lock_pass (pass_interference sched) [] ws db = (Inr False, db')
   \<Longrightarrow> lock_write_set sched ws db =
       (case sched of
          [] \<Rightarrow> (Some Still_retrying, platform_sleep_ns 1000 db')
        | s # sched' \<Rightarrow>
            lock_write_set sched' ws
              ((platform_sleep_ns 1000 db')\<lparr>tscache := snd s (tscache (platform_sleep_ns 1000 db'))\<rparr>))"
  unfolding pass_interference_def
  by (subst lock_write_set.simps) (simp add: Let_def)









subsection \<open>A transaction that has to retry its locks\<close>

text \<open>
  Two writes, buffered for key 3 and then for key 2.  Another transaction holds the lock
  of key 3 and gives it back while this one sleeps; in the second pass a third
  transaction takes the lock of key 3 between the load and the swap of this one, and gives
  it back during the second sleep.
\<close>

definition txn_retry :: "nat transaction" where
  "txn_retry = \<lparr>rw_entries =
      [\<lparr>key = 3, msg = Some \<lparr>message_class = MESSAGE_TYPE_UPDATE,
                            message_data = replicate 16 0 @ [9]\<rparr>,
        wts = 0, rts = 0, tuple_ts = True, is_read = False, need_to_keep_key = False\<rparr>,
       \<lparr>key = 2, msg = Some \<lparr>message_class = MESSAGE_TYPE_INSERT,
                            message_data = replicate 16 0 @ [7]\<rparr>,
        wts = 0, rts = 0, tuple_ts = True, is_read = False, need_to_keep_key = True\<rparr>]\<rparr>"

definition db_retry :: "nat transactional_splinterdb" where
  "db_retry = \<lparr>tscache = (\<lambda>_. \<lparr>ts_lock_bit = False, ts_delta = 0, ts_wts = 0\<rparr>)
                      (2 := \<lparr>ts_lock_bit = False, ts_delta = 0, ts_wts = 1\<rparr>,
                       3 := \<lparr>ts_lock_bit = True, ts_delta = 0, ts_wts = 1\<rparr>),
          tscache_refcount = [2 \<mapsto> 1, 3 \<mapsto> 2],
          trace = []\<rparr>"



text \<open>
  What the rule refuses: a trace that stops after a refused lock with the lock of key 2
  still held, and a loop that returns without having done anything.  The loop itself,
  out of schedule after one refused pass, has given the lock back and slept.
\<close>

lemma no_wait_protocol_refuses:
  "\<not> no_wait_protocol [2 :: nat, 3]
        [Cas 2 \<lparr>ts_lock_bit = False, ts_delta = 0, ts_wts = 1\<rparr>
               \<lparr>ts_lock_bit = True, ts_delta = 0, ts_wts = 1\<rparr> True,
         Try_lock 2 True, Try_lock 3 False] None"
  "\<not> no_wait_protocol [2 :: nat, 3]
        [Cas 2 \<lparr>ts_lock_bit = False, ts_delta = 0, ts_wts = 1\<rparr>
               \<lparr>ts_lock_bit = True, ts_delta = 0, ts_wts = 1\<rparr> True,
         Try_lock 2 True, Try_lock 3 False] (Some Still_retrying)"
  "\<not> no_wait_protocol [2 :: nat, 3] [] None"
  "\<not> no_wait_protocol [2 :: nat, 3] [] (Some Still_retrying)"
  by (simp_all add: no_wait_protocol_def)

lemma lock_write_set_still_retrying:
  "(case lock_write_set []
           (map (\<lambda>i. rw_entries txn_retry ! i) (commit_write_set (rw_entries txn_retry))) db_retry of
      (res, db') \<Rightarrow> (res, trace db', ts_lock_bit (tscache db' 2)))
   = (Some Still_retrying,
      [Cas 2 \<lparr>ts_lock_bit = False, ts_delta = 0, ts_wts = 1\<rparr>
             \<lparr>ts_lock_bit = True, ts_delta = 0, ts_wts = 1\<rparr> True,
       Try_lock 2 True,
       Try_lock 3 False,
       Cas 2 \<lparr>ts_lock_bit = True, ts_delta = 0, ts_wts = 1\<rparr>
             \<lparr>ts_lock_bit = False, ts_delta = 0, ts_wts = 1\<rparr> True,
       Sleep_ns 1000],
      False)"
  by code_simp

subsection \<open>Lookup\<close>




text \<open>
  The copy of line 384 leaves both of its buffers for every message: it reads
  \<^verbatim>\<open>sizeof(tuple_header)\<close> bytes more than the application's message has and writes as many
  past the end of the new buffer.
\<close>

lemma rw_entry_set_msg_overruns: "rw_entry_set_msg e m = Inl Buffer_overrun"
  by (simp add: rw_entry_set_msg_def memcpy_def Let_def message_length_def sizeof_tuple_header_def)


subsection \<open>A transaction that reads what it wrote, and one that reads the store\<close>



text \<open>
  Claim C6 on the code: a lookup of key 1, which the transaction has not written, with
  the cache slot \<open>{wts = 3, delta = 2}\<close> unlocked.  The function returns 0 with the
  snapshot recorded in the entry (\<open>wts = 3\<close>, \<open>rts = 5\<close>), but it has issued no
  \<^verbatim>\<open>splinterdb_lookup\<close> (the trace is empty), the result buffer is as it was, and the cache
  slot was not swapped: the loop that does these things stands behind the \<^verbatim>\<open>return\<close>.
  With the slot locked by another transaction the function returns as well, without any
  retry, recording the locked snapshot.
\<close>

theorem lookup_returns_before_storage:
  "(case transactional_splinterdb_lookup env0 \<lparr>rw_entries = []\<rparr> 1 [] db0 of
      (rc, txn', result', db') \<Rightarrow>
        (rc, result', trace db', map wts (rw_entries txn'), map rts (rw_entries txn'), tscache db' 1))
   = (0, [], [], [3], [5], \<lparr>ts_lock_bit = False, ts_delta = 2, ts_wts = 3\<rparr>)
   \<and> (case transactional_splinterdb_lookup env0 \<lparr>rw_entries = []\<rparr> 3 [] db_retry of
      (rc, txn', result', db') \<Rightarrow>
        (rc, result', trace db', map wts (rw_entries txn'), map rts (rw_entries txn'), tscache db' 3))
   = (0, [], [], [1], [1], \<lparr>ts_lock_bit = True, ts_delta = 0, ts_wts = 1\<rparr>)"
  by code_simp

section \<open>Creating and opening a transactional store\<close>

text \<open>
  Modelled from the spec: \<^verbatim>\<open>splinterdb_config\<close> and \<^verbatim>\<open>data_config\<close> are declared in
  headers that are not part of the sources.  The configuration carries the options the
  spec lists for \<^verbatim>\<open>create(config)\<close> and \<^verbatim>\<open>open(config)\<close>, among them
  \<^verbatim>\<open>tscache_log_slots\<close>.  A data configuration is the application's, or the
  transactional one that \<^verbatim>\<open>transactional_data_config_init\<close> wraps around it (the
  application's with the two merge functions replaced).
\<close>

datatype data_config = Application_data_config string | Transactional_data_config data_config

record splinterdb_config =
  filename :: string
  cache_size :: nat
  disk_size :: nat
  use_log :: bool
  data_cfg :: data_config
  cfg_tscache_log_slots :: nat

datatype transaction_isolation_level =
    TRANSACTION_ISOLATION_LEVEL_INVALID
  | TRANSACTION_ISOLATION_LEVEL_SERIALIZABLE
  | TRANSACTION_ISOLATION_LEVEL_SNAPSHOT
  | TRANSACTION_ISOLATION_LEVEL_READ_COMMITTED
  | TRANSACTION_ISOLATION_LEVEL_MAX_VALID

record transactional_splinterdb_config =
  kvsb_cfg :: splinterdb_config
  isol_level :: transaction_isolation_level
  tscache_log_slots :: nat

text \<open>The calls that leave the function, in order.\<close>

datatype create_event =
    Splinterdb_create_or_open splinterdb_config bool
  | Iceberg_init nat

definition transactional_data_config_init :: "data_config \<Rightarrow> data_config" where
  "transactional_data_config_init in_cfg = Transactional_data_config in_cfg"

definition transactional_splinterdb_config_init ::
  "splinterdb_config \<Rightarrow> transactional_splinterdb_config" where
  "transactional_splinterdb_config_init cfg =
     \<lparr>kvsb_cfg = cfg\<lparr>data_cfg := transactional_data_config_init (data_cfg cfg)\<rparr>,
      isol_level = TRANSACTION_ISOLATION_LEVEL_SERIALIZABLE,
      tscache_log_slots = 20\<rparr>"

text \<open>
  \<^verbatim>\<open>transactional_splinterdb_create_or_open\<close>.  \<open>kvsb_rc\<close> is what
  \<^verbatim>\<open>splinterdb_create_or_open\<close> returns and \<open>iceberg_rc\<close> what \<^verbatim>\<open>iceberg_init\<close> returns, both
  decided outside the sources.  The result is the return code, the configuration of the
  new handle (\<open>None\<close> when none is made) and the calls made.
\<close>

definition transactional_splinterdb_create_or_open ::
  "int \<Rightarrow> int \<Rightarrow> splinterdb_config \<Rightarrow> bool
   \<Rightarrow> error + (int \<times> transactional_splinterdb_config option \<times> create_event list)" where
  "transactional_splinterdb_create_or_open kvsb_rc iceberg_rc cfg open_existing =
     (let txn_splinterdb_cfg = transactional_splinterdb_config_init cfg;
          calls = [Splinterdb_create_or_open (kvsb_cfg txn_splinterdb_cfg) open_existing]
      in if kvsb_rc \<noteq> 0 then Inr (kvsb_rc, None, calls)
         else if iceberg_rc \<noteq> 0 then Inl Assert_failed
         else Inr (0, Some txn_splinterdb_cfg,
                   calls @ [Iceberg_init (tscache_log_slots txn_splinterdb_cfg)]))"

definition transactional_splinterdb_create ::
  "int \<Rightarrow> int \<Rightarrow> splinterdb_config
   \<Rightarrow> error + (int \<times> transactional_splinterdb_config option \<times> create_event list)" where
  "transactional_splinterdb_create kvsb_rc iceberg_rc cfg =
     transactional_splinterdb_create_or_open kvsb_rc iceberg_rc cfg False"

definition transactional_splinterdb_open ::
  "int \<Rightarrow> int \<Rightarrow> splinterdb_config
   \<Rightarrow> error + (int \<times> transactional_splinterdb_config option \<times> create_event list)" where
  "transactional_splinterdb_open kvsb_rc iceberg_rc cfg =
     transactional_splinterdb_create_or_open kvsb_rc iceberg_rc cfg True"

text \<open>
  Claim C7, as the code has it: whatever configuration is passed to
  \<^verbatim>\<open>transactional_splinterdb_create\<close> or \<^verbatim>\<open>transactional_splinterdb_open\<close>, the
  \<^verbatim>\<open>tscache_log_slots\<close> of the new handle is the 20 that
  \<^verbatim>\<open>transactional_splinterdb_config_init\<close> stores, and \<^verbatim>\<open>iceberg_init\<close> is called with 20
  when the store was created or opened (and is not called when that failed).
\<close>

theorem tscache_log_slots_fixed:
  "transactional_splinterdb_create_or_open kvsb_rc iceberg_rc cfg open_existing =
     (if kvsb_rc \<noteq> 0
      then Inr (kvsb_rc, None,
                [Splinterdb_create_or_open
                   (cfg\<lparr>data_cfg := Transactional_data_config (data_cfg cfg)\<rparr>) open_existing])
      else if iceberg_rc \<noteq> 0 then Inl Assert_failed
      else Inr (0, Some (transactional_splinterdb_config_init cfg),
                [Splinterdb_create_or_open
                   (cfg\<lparr>data_cfg := Transactional_data_config (data_cfg cfg)\<rparr>) open_existing,
                 Iceberg_init 20]))
   \<and> tscache_log_slots (transactional_splinterdb_config_init cfg) = 20
   \<and> transactional_splinterdb_create kvsb_rc iceberg_rc cfg
       = transactional_splinterdb_create_or_open kvsb_rc iceberg_rc cfg False
   \<and> transactional_splinterdb_open kvsb_rc iceberg_rc cfg
       = transactional_splinterdb_create_or_open kvsb_rc iceberg_rc cfg True"
  by (simp add: transactional_splinterdb_create_or_open_def Let_def
        transactional_splinterdb_config_init_def transactional_data_config_init_def
        transactional_splinterdb_create_def transactional_splinterdb_open_def)

definition small_cache_config :: splinterdb_config where
  "small_cache_config =
     \<lparr>filename = ''db'', cache_size = 1048576, disk_size = 33554432, use_log = False,
      data_cfg = Application_data_config ''default'', cfg_tscache_log_slots = 8\<rparr>"

text \<open>C7 on the configuration of the spec's scenario, which asks for 8.\<close>

theorem tscache_log_slots_fixed_witness:
  "transactional_splinterdb_create 0 0 small_cache_config
     = Inr (0, Some \<lparr>kvsb_cfg = small_cache_config
                        \<lparr>data_cfg := Transactional_data_config (Application_data_config ''default'')\<rparr>,
                      isol_level = TRANSACTION_ISOLATION_LEVEL_SERIALIZABLE,
                      tscache_log_slots = 20\<rparr>,
            [Splinterdb_create_or_open
               (small_cache_config
                  \<lparr>data_cfg := Transactional_data_config (Application_data_config ''default'')\<rparr>) False,
             Iceberg_init 20])"
  using tscache_log_slots_fixed [of 0 0 small_cache_config False]
  by (simp add: transactional_splinterdb_config_init_def transactional_data_config_init_def
        small_cache_config_def)

text \<open>
  Claim C7 as stated (\<^verbatim>\<open>iceberg_init\<close> is called with the slot count the caller
  supplied) fails: the configuration asks for 8, and both entry points call
  \<^verbatim>\<open>iceberg_init\<close> with 20.
\<close>

theorem tscache_log_slots_ignored:
  "cfg_tscache_log_slots small_cache_config = 8
   \<and> (case transactional_splinterdb_create 0 0 small_cache_config of
        Inr (rc, handle, calls) \<Rightarrow> Iceberg_init 20 \<in> set calls \<and> Iceberg_init 8 \<notin> set calls
      | Inl e \<Rightarrow> False)
   \<and> (case transactional_splinterdb_open 0 0 small_cache_config of
        Inr (rc, handle, calls) \<Rightarrow> Iceberg_init 20 \<in> set calls \<and> Iceberg_init 8 \<notin> set calls
      | Inl e \<Rightarrow> False)"
  by (simp add: transactional_splinterdb_create_def transactional_splinterdb_open_def
        transactional_splinterdb_create_or_open_def Let_def
        transactional_splinterdb_config_init_def small_cache_config_def)

section \<open>Validation and write phases of the commit\<close>

subsection \<open>What each step leaves unchanged\<close>

text \<open>The key of a store operation in the trace.\<close>

fun kv_key :: "'k event \<Rightarrow> 'k option" where
  "kv_key (Splinterdb_insert k bytes) = Some k"
| "kv_key (Splinterdb_update k bytes) = Some k"
| "kv_key (Splinterdb_delete k) = Some k"
| "kv_key (Splinterdb_lookup k) = Some k"
| "kv_key _ = None"

text \<open>
  The only store operation of \<^verbatim>\<open>rw_entry_iceberg_remove\<close>: the timestamps of an evicted
  key, sent as an update whose first bit (\<^verbatim>\<open>is_ts_update\<close>) is set.
\<close>

definition timestamp_update :: "'k \<Rightarrow> 'k event \<Rightarrow> bool" where
  "timestamp_update k ev =
     (\<exists>ts. ev = Splinterdb_update k (timestamp_set_bytes (ts\<lparr>ts_lock_bit := True\<rparr>)))"

lemma list_update_nth_field:
  "f r' = f (es ! i) \<Longrightarrow> f (es[i := r'] ! j) = f (es ! j)"
  by (cases "i < length es"; cases "j = i") (simp_all add: list_update_beyond)

lemma rw_entry_iceberg_remove_frame:
  assumes "rw_entry_iceberg_remove env r u db = (r', db')"
  shows "key r' = key r" "msg r' = msg r" "wts r' = wts r" "rts r' = rts r"
    "is_read r' = is_read r" "tscache db' = tscache db"
    "trace db' = trace db \<or> (u \<and> (\<exists>ev. trace db' = trace db @ [ev] \<and> timestamp_update (key r) ev))"
  using assms
  by (auto simp: rw_entry_iceberg_remove_def iceberg_get_and_remove_def timestamp_update_def
           split: if_splits option.splits)

lemma read_entry_validate_frame:
  assumes "read_entry_validate c r db = Inr (a, db')"
  shows "ts_wts (tscache db' k) = ts_wts (tscache db k)"
    "ts_lock_bit (tscache db' k) = ts_lock_bit (tscache db k)"
    "k \<noteq> key r \<Longrightarrow> tscache db' k = tscache db k"
    "trace db' = trace db \<or> (\<exists>v1 v2. trace db' = trace db @ [Cas (key r) v1 v2 True])"
  using assms
  by (auto simp: read_entry_validate_eq read_entry_extension_cases Let_def split: if_splits)


text \<open>One round of the loop over the read set that ends with a return value.\<close>

lemma read_set_validate_Cons_Inr:
  assumes "read_set_validate env c (i # rs) es db = Inr (a, es2, db2)"
  obtains (skip) "rw_entry_is_read (es ! i)" "\<not> rts (es ! i) < c"
      "read_set_validate env c rs es db = Inr (a, es2, db2)"
  | (abort) db1 r' db1' where "rw_entry_is_read (es ! i)" "rts (es ! i) < c" "tuple_ts (es ! i)"
      "read_entry_validate c (es ! i) db = Inr (True, db1)"
      "(if \<not> rw_entry_is_write (es ! i) then rw_entry_iceberg_remove env (es ! i) True db1
        else (es ! i, db1)) = (r', db1')"
      "a" "es2 = es[i := r']" "db2 = db1'"
  | (pass) db1 r' db1' where "rw_entry_is_read (es ! i)" "rts (es ! i) < c" "tuple_ts (es ! i)"
      "read_entry_validate c (es ! i) db = Inr (False, db1)"
      "(if \<not> rw_entry_is_write (es ! i) then rw_entry_iceberg_remove env (es ! i) True db1
        else (es ! i, db1)) = (r', db1')"
      "read_set_validate env c rs (es[i := r']) db1' = Inr (a, es2, db2)"
proof (cases "rts (es ! i) < c")
  case False
  with assms skip show ?thesis by (simp add: Let_def split: if_splits)
next
  case True
  from assms True have rd: "rw_entry_is_read (es ! i)" and tt: "tuple_ts (es ! i)"
    by (simp_all add: Let_def split: if_splits)
  from assms True rd tt obtain a1 db1 where v: "read_entry_validate c (es ! i) db = Inr (a1, db1)"
    by (cases "read_entry_validate c (es ! i) db") (auto simp: Let_def)
  obtain r' db1' where rm:
    "(if \<not> rw_entry_is_write (es ! i) then rw_entry_iceberg_remove env (es ! i) True db1
      else (es ! i, db1)) = (r', db1')"
    by (cases "if \<not> rw_entry_is_write (es ! i) then rw_entry_iceberg_remove env (es ! i) True db1
      else (es ! i, db1)") auto
  show ?thesis
  proof (cases a1)
    case a1: True
    from assms True rd tt v rm a1 have "a" "es2 = es[i := r']" "db2 = db1'"
      by (simp_all add: Let_def)
    with abort rd True tt v rm a1 show ?thesis by simp
  next
    case a1: False
    from assms True rd tt v rm a1
    have "read_set_validate env c rs (es[i := r']) db1' = Inr (a, es2, db2)"
      by (simp add: Let_def)
    with pass rd True tt v rm a1 show ?thesis by simp
  qed
qed

lemma validated_entry_frame:
  assumes "(if \<not> rw_entry_is_write r then rw_entry_iceberg_remove env r True db1
            else (r, db1)) = (r', db1')"
  shows "key r' = key r" "msg r' = msg r" "wts r' = wts r" "rts r' = rts r"
    "is_read r' = is_read r" "tscache db1' = tscache db1"
    "trace db1' = trace db1
     \<or> (\<not> rw_entry_is_write r \<and> (\<exists>ev. trace db1' = trace db1 @ [ev] \<and> timestamp_update (key r) ev))"
  using assms rw_entry_iceberg_remove_frame [of env r True db1 r' db1']
  by (auto split: if_splits)

text \<open>
  The events the read validation may add: swaps on cache slots, and timestamp-only
  updates for read entries that are not write entries.
\<close>

definition validation_event :: "nat list \<Rightarrow> 'k rw_entry list \<Rightarrow> 'k event \<Rightarrow> bool" where
  "validation_event rs es ev =
     (kv_key ev = None
      \<or> (\<exists>i\<in>set rs. \<not> rw_entry_is_write (es ! i) \<and> timestamp_update (key (es ! i)) ev))"

lemma validation_event_Cas [simp]: "validation_event rs es (Cas k v1 v2 b)"
  by (simp add: validation_event_def)

lemma validation_event_mono:
  assumes "validation_event rs es' ev"
    and "\<And>j. key (es' ! j) = key (es ! j)" "\<And>j. msg (es' ! j) = msg (es ! j)"
  shows "validation_event (i # rs) es ev"
  using assms by (auto simp: validation_event_def rw_entry_is_write_def)

lemma read_set_validate_frame:
  assumes "read_set_validate env c rs es db = Inr (a, es2, db2)"
  shows "(\<forall>j. key (es2 ! j) = key (es ! j) \<and> msg (es2 ! j) = msg (es ! j))
       \<and> (\<forall>k. ts_wts (tscache db2 k) = ts_wts (tscache db k)
               \<and> ts_lock_bit (tscache db2 k) = ts_lock_bit (tscache db k))
       \<and> (\<exists>evs. trace db2 = trace db @ evs \<and> (\<forall>ev\<in>set evs. validation_event rs es ev))"
  using assms
proof (induction rs arbitrary: es db)
  case Nil
  then show ?case by simp
next
  case (Cons i rs)
  from Cons.prems show ?case
  proof (cases rule: read_set_validate_Cons_Inr)
    case skip
    from Cons.IH [OF skip(3)] obtain evs where
      e: "\<forall>j. key (es2 ! j) = key (es ! j) \<and> msg (es2 ! j) = msg (es ! j)"
      and t: "\<forall>k. ts_wts (tscache db2 k) = ts_wts (tscache db k)
               \<and> ts_lock_bit (tscache db2 k) = ts_lock_bit (tscache db k)"
      and tr: "trace db2 = trace db @ evs"
      and ev: "\<forall>ev\<in>set evs. validation_event rs es ev"
      by blast
    have "\<forall>ev\<in>set evs. validation_event (i # rs) es ev"
      using ev validation_event_mono [of rs es _ es i] by blast
    with e t tr show ?thesis by blast
  next
    case (abort db1 r' db1')
    note v = read_entry_validate_frame [OF abort(4)]
    note f = validated_entry_frame [OF abort(5)]
    have e: "\<forall>j. key (es2 ! j) = key (es ! j) \<and> msg (es2 ! j) = msg (es ! j)"
      using abort(7) f(1,2) by (simp add: list_update_nth_field)
    have t: "\<forall>k. ts_wts (tscache db2 k) = ts_wts (tscache db k)
               \<and> ts_lock_bit (tscache db2 k) = ts_lock_bit (tscache db k)"
      using abort(8) f(6) v(1,2) by simp
    from v(4) f(7) abort(8)
    have "\<exists>evs. trace db2 = trace db @ evs \<and> (\<forall>ev\<in>set evs. validation_event (i # rs) es ev)"
      by (auto simp: validation_event_def)
    with e t show ?thesis by blast
  next
    case (pass db1 r' db1')
    note v = read_entry_validate_frame [OF pass(4)]
    note f = validated_entry_frame [OF pass(5)]
    have k: "key (es[i := r'] ! j) = key (es ! j)" for j
      using f(1) by (rule list_update_nth_field)
    have m: "msg (es[i := r'] ! j) = msg (es ! j)" for j
      using f(2) by (rule list_update_nth_field)
    from Cons.IH [OF pass(6)] obtain evs2 where
      e2: "\<forall>j. key (es2 ! j) = key (es[i := r'] ! j) \<and> msg (es2 ! j) = msg (es[i := r'] ! j)"
      and t2: "\<forall>k. ts_wts (tscache db2 k) = ts_wts (tscache db1' k)
               \<and> ts_lock_bit (tscache db2 k) = ts_lock_bit (tscache db1' k)"
      and tr2: "trace db2 = trace db1' @ evs2"
      and ev2: "\<forall>ev\<in>set evs2. validation_event rs (es[i := r']) ev"
      by blast
    have e: "\<forall>j. key (es2 ! j) = key (es ! j) \<and> msg (es2 ! j) = msg (es ! j)"
      using e2 k m by simp
    have t: "\<forall>k. ts_wts (tscache db2 k) = ts_wts (tscache db k)
               \<and> ts_lock_bit (tscache db2 k) = ts_lock_bit (tscache db k)"
      using t2 f(6) v(1,2) by simp
    have ev2': "\<forall>ev\<in>set evs2. validation_event (i # rs) es ev"
      using ev2 validation_event_mono [OF _ k m] by blast
    from v(4) f(7)
    obtain evs1 where tr1: "trace db1' = trace db @ evs1"
      and ev1: "\<forall>ev\<in>set evs1. validation_event (i # rs) es ev"
      by (auto simp: validation_event_def)
    have "trace db2 = trace db @ (evs1 @ evs2)"
      using tr1 tr2 by simp
    moreover have "\<forall>ev\<in>set (evs1 @ evs2). validation_event (i # rs) es ev"
      using ev1 ev2' by auto
    ultimately show ?thesis using e t by blast
  qed
qed


lemma unlock_entries_tscache:
  "tscache (fold rw_entry_unlock acq db) k
     = (if k \<in> key ` set acq then (tscache db k)\<lparr>ts_lock_bit := False\<rparr> else tscache db k)"
proof (induction acq arbitrary: db)
  case Nil
  then show ?case by simp
next
  case (Cons w acq)
  have u: "tscache (rw_entry_unlock w db)
      = (tscache db)(key w := (tscache db (key w))\<lparr>ts_lock_bit := False\<rparr>)"
    by (simp add: rw_entry_unlock_eq)
  have "tscache (fold rw_entry_unlock (w # acq) db) k
      = (if k \<in> key ` set acq then (tscache (rw_entry_unlock w db) k)\<lparr>ts_lock_bit := False\<rparr>
         else tscache (rw_entry_unlock w db) k)"
    using Cons.IH [of "rw_entry_unlock w db"] by simp
  then show ?case unfolding u by auto
qed

lemma unlock_entries_trace:
  "\<exists>evs. trace (fold rw_entry_unlock acq db) = trace db @ evs \<and> (\<forall>ev\<in>set evs. kv_key ev = None)"
proof (induction acq arbitrary: db)
  case Nil
  then show ?case by simp
next
  case (Cons w acq)
  from Cons.IH [of "rw_entry_unlock w db"] obtain evs where
    "trace (fold rw_entry_unlock acq (rw_entry_unlock w db)) = trace (rw_entry_unlock w db) @ evs"
    "\<forall>ev\<in>set evs. kv_key ev = None"
    by blast
  moreover have "trace (rw_entry_unlock w db)
      = trace db @ [Cas (key w) (tscache db (key w)) ((tscache db (key w))\<lparr>ts_lock_bit := False\<rparr>) True]"
    by (simp add: rw_entry_unlock_eq)
  ultimately have "trace (fold rw_entry_unlock (w # acq) db)
      = trace db @ (Cas (key w) (tscache db (key w)) ((tscache db (key w))\<lparr>ts_lock_bit := False\<rparr>) True # evs)
    \<and> (\<forall>ev\<in>set (Cas (key w) (tscache db (key w)) ((tscache db (key w))\<lparr>ts_lock_bit := False\<rparr>) True # evs).
          kv_key ev = None)"
    by simp
  then show ?case by blast
qed

lemma transaction_deinit_frame:
  "tscache (transaction_deinit env es db) = tscache db
   \<and> trace (transaction_deinit env es db) = trace db"
  unfolding transaction_deinit_def
proof (induction es arbitrary: db)
  case Nil
  then show ?case by simp
next
  case (Cons e es)
  obtain e' db' where r: "rw_entry_iceberg_remove env e False db = (e', db')"
    by (cases "rw_entry_iceberg_remove env e False db") auto
  from rw_entry_iceberg_remove_frame(6,7) [OF r]
  have "tscache db' = tscache db" "trace db' = trace db" by simp_all
  with Cons.IH [of db'] r show ?case by simp
qed



lemma lock_pass_trace:
  "\<exists>evs. trace (snd (lock_pass btw acq ws db)) = trace db @ evs \<and> (\<forall>ev\<in>set evs. kv_key ev = None)"
proof (induction ws arbitrary: acq db)
  case Nil
  then show ?case by simp
next
  case (Cons w ws)
  show ?case
  proof (cases "tuple_ts w")
    case False
    then show ?thesis by simp
  next
    case True
    obtain ok db' where tl: "rw_entry_try_lock (btw (key w)) w db = (ok, db')"
      by (cases "rw_entry_try_lock (btw (key w)) w db")
    then have "\<exists>evs. trace db' = trace db @ evs \<and> (\<forall>ev\<in>set evs. kv_key ev = None)"
      by (auto simp: rw_entry_try_lock_eq Let_def split: if_splits)
    then obtain evs0 where t0: "trace db' = trace db @ evs0" and n0: "\<forall>ev\<in>set evs0. kv_key ev = None"
      by blast
    show ?thesis
    proof (cases ok)
      case False
      have lp: "lock_pass btw acq (w # ws) db = (Inr False, fold rw_entry_unlock acq db')"
        using True tl False by simp
      from unlock_entries_trace [of acq db'] obtain evs where
        "trace (fold rw_entry_unlock acq db') = trace db' @ evs" "\<forall>ev\<in>set evs. kv_key ev = None"
        by blast
      then have "trace (snd (lock_pass btw acq (w # ws) db)) = trace db @ (evs0 @ evs)
          \<and> (\<forall>ev\<in>set (evs0 @ evs). kv_key ev = None)"
        unfolding lp using t0 n0 by auto
      then show ?thesis by blast
    next
      case ok: True
      have step: "lock_pass btw acq (w # ws) db = lock_pass btw (acq @ [w]) ws db'"
        using True tl ok by simp
      from Cons.IH [of "acq @ [w]" db'] obtain evs where
        "trace (snd (lock_pass btw (acq @ [w]) ws db')) = trace db' @ evs"
        "\<forall>ev\<in>set evs. kv_key ev = None"
        by blast
      then have "trace (snd (lock_pass btw acq (w # ws) db)) = trace db @ (evs0 @ evs)
          \<and> (\<forall>ev\<in>set (evs0 @ evs). kv_key ev = None)"
        unfolding step using t0 n0 by auto
      then show ?thesis by blast
    qed
  qed
qed

lemma lock_write_set_trace:
  "\<exists>evs. trace (snd (lock_write_set sched ws db)) = trace db @ evs \<and> (\<forall>ev\<in>set evs. kv_key ev = None)"
proof (induction sched arbitrary: db)
  case Nil
  obtain res db' where Pair: "lock_pass (pass_interference []) [] ws db = (res, db')"
    by (cases "lock_pass (pass_interference []) [] ws db")
  from lock_pass_trace [of "pass_interference []" "[]" ws db] Pair obtain evs where
    t: "trace db' = trace db @ evs" and n: "\<forall>ev\<in>set evs. kv_key ev = None" by auto
  show ?case
  proof (cases "res = Inr False")
    case True
    have "trace (snd (lock_write_set [] ws db)) = trace db @ (evs @ [Sleep_ns 1000])"
      using Pair True t by (simp add: lock_write_set_retry platform_sleep_ns_def)
    moreover have "\<forall>ev\<in>set (evs @ [Sleep_ns 1000]). kv_key ev = None"
      using n by simp
    ultimately show ?thesis by blast
  next
    case False
    have "snd (lock_write_set [] ws db) = db'"
      by (simp add: lock_write_set_done [OF Pair False])
    with t n show ?thesis by auto
  qed
next
  case (Cons s sched)
  obtain res db' where Pair: "lock_pass (pass_interference (s # sched)) [] ws db = (res, db')"
    by (cases "lock_pass (pass_interference (s # sched)) [] ws db")
  from lock_pass_trace [of "pass_interference (s # sched)" "[]" ws db] Pair obtain evs where
    t: "trace db' = trace db @ evs" and n: "\<forall>ev\<in>set evs. kv_key ev = None" by auto
  show ?case
  proof (cases "res = Inr False")
    case True
    let ?db'' = "(platform_sleep_ns 1000 db')\<lparr>tscache := snd s (tscache (platform_sleep_ns 1000 db'))\<rparr>"
    from Cons.IH [of ?db''] obtain evs2 where
      t2: "trace (snd (lock_write_set sched ws ?db'')) = trace ?db'' @ evs2"
      and n2: "\<forall>ev\<in>set evs2. kv_key ev = None"
      by blast
    have "lock_write_set (s # sched) ws db = lock_write_set sched ws ?db''"
      using Pair True by (simp add: lock_write_set_retry)
    then have "trace (snd (lock_write_set (s # sched) ws db))
        = trace db @ (evs @ Sleep_ns 1000 # evs2)"
      using t2 t by (simp add: platform_sleep_ns_def)
    moreover have "\<forall>ev\<in>set (evs @ Sleep_ns 1000 # evs2). kv_key ev = None"
      using n n2 by auto
    ultimately show ?thesis by blast
  next
    case False
    have "snd (lock_write_set (s # sched) ws db) = db'"
      by (simp add: lock_write_set_done [OF Pair False])
    with t n show ?thesis by auto
  qed
qed

text \<open>
  The phases of a commit, named: the state in which the write set is locked, the entries
  with the \<open>rts\<close> of the write entries refreshed, the commit timestamp, and the outcome of
  the read validation.
\<close>

definition commit_locked ::
  "('k::linorder) schedule \<Rightarrow> 'k transaction
   \<Rightarrow> 'k transactional_splinterdb \<Rightarrow> error option \<times> 'k transactional_splinterdb" where
  "commit_locked sched txn db =
     lock_write_set sched (map (\<lambda>i. rw_entries txn ! i) (commit_write_set (rw_entries txn))) db"

definition commit_entries ::
  "('k::linorder) schedule \<Rightarrow> 'k transaction
   \<Rightarrow> 'k transactional_splinterdb \<Rightarrow> 'k rw_entry list" where
  "commit_entries sched txn db =
     fst (write_set_rts (commit_write_set (rw_entries txn)) (rw_entries txn) 0
            (snd (commit_locked sched txn db)))"

definition commit_timestamp ::
  "('k::linorder) env \<Rightarrow> 'k schedule \<Rightarrow> 'k transaction
   \<Rightarrow> 'k transactional_splinterdb \<Rightarrow> txn_timestamp" where
  "commit_timestamp env sched txn db =
     snd (write_set_rts (commit_write_set (rw_entries txn)) (rw_entries txn)
            (snd (snd (commit_partition env (rw_entries txn))))
            (snd (commit_locked sched txn db)))"


lemma commit_phases:
  "transactional_splinterdb_commit env sched txn db =
     (case fst (commit_locked sched txn db) of
        Some e \<Rightarrow> Inl e
      | None \<Rightarrow>
          commit_validate_and_write env (commit_timestamp env sched txn db)
            (commit_read_set (rw_entries txn)) (commit_write_set (rw_entries txn))
            (commit_entries sched txn db) (snd (commit_locked sched txn db)))"
proof -
  obtain r db1 where L: "commit_locked sched txn db = (r, db1)"
    by (cases "commit_locked sched txn db")
  have fst0: "fst (write_set_rts ws es c db1) = fst (write_set_rts ws es 0 db1)" for ws es c
    by (rule write_set_rts_fst)
  show ?thesis
    unfolding transactional_splinterdb_commit_def Let_def commit_partition_eq prod.case
      commit_write_set_def [symmetric]
    using L
    by (cases r)
       (simp_all add: commit_locked_def commit_entries_def commit_timestamp_def
          commit_partition_eq case_prod_beta fst0 [of _ _ "Max _"])
qed

subsection \<open>The read validation\<close>
















subsection \<open>A read set with a conflict, and a read entry that another transaction has extended\<close>






subsection \<open>The shift of the read-set extension in a commit\<close>


















text \<open>
  What the two assumptions leave out.  A read entry gets its \<open>wts\<close> from the 63-bit field
  of a cache entry.  With a write entry whose cache entry has reached the last 64-bit
  timestamp, \<open>commit_ts\<close> is \<open>2 ^ 64\<close>, and for a read entry with \<open>wts = 0\<close> the shift is
  \<open>2 ^ 64\<close> and the assertion fails.
\<close>

lemma recorded_wts_below: "ucast (w :: 63 word) < (2 ^ 63 :: txn_timestamp)"
proof -
  have "unat (ucast w :: txn_timestamp) = take_bit 128 (unat w)"
    by (simp add: unsigned_ucast_eq)
  also have "\<dots> \<le> unat w"
    by (rule take_bit_nat_less_eq_self)
  also have "\<dots> < 2 ^ 63"
    using unsigned_less [of w] by simp
  finally show ?thesis
    by (simp add: word_less_nat_alt)
qed

lemma extension_shift_at_the_last_timestamp:
  "timestamp_set_get_rts \<lparr>ts_lock_bit = True, ts_delta = 18446744073709551615, ts_wts = 0\<rparr> + 1
     = 18446744073709551616
   \<and> extend_shift (18446744073709551616 - ucast (0 :: 63 word)) = 18446744073709551616
   \<and> read_entry_extension 18446744073709551616 \<lparr>ts_lock_bit = False, ts_delta = 0, ts_wts = 0\<rparr>
       = Inl Assert_failed"
  by (simp add: read_entry_extension_def extend_shift_def UINT64_MAX_def timestamp_set_get_rts_def)

end
